theory Spec2Isabelle
  imports Complex_Main "HOL-Library.Char_ord" "HOL-Library.List_Lexorder"
begin

section \<open>Python strings\<close>

text \<open>
  Text is a \<open>string\<close>: a list of 8-bit characters, read as the UTF-8 encoding of the
  Python \<open>str\<close>.  Character classes and case folding follow Python on the ASCII range;
  a byte above 127 is neither a letter, a digit, a space nor a cased character here.
  The eight glyphs of \<open>check_special_characters\<close> are their three-byte encodings.
\<close>

definition ord :: "char \<Rightarrow> nat" where
  "ord c = of_char c"

definition is_upper :: "char \<Rightarrow> bool" where
  "is_upper c = (65 \<le> ord c \<and> ord c \<le> 90)"

definition is_lower :: "char \<Rightarrow> bool" where
  "is_lower c = (97 \<le> ord c \<and> ord c \<le> 122)"

definition is_alpha :: "char \<Rightarrow> bool" where
  "is_alpha c = (is_upper c \<or> is_lower c)"

definition is_digit :: "char \<Rightarrow> bool" where
  "is_digit c = (48 \<le> ord c \<and> ord c \<le> 57)"

definition is_space :: "char \<Rightarrow> bool" where
  \<comment> \<open>\<open>str.isspace\<close> on ASCII: tab, LF, VT, FF, CR, FS, GS, RS, US and space\<close>
  "is_space c = ((9 \<le> ord c \<and> ord c \<le> 13) \<or> (28 \<le> ord c \<and> ord c \<le> 32))"

definition is_word :: "char \<Rightarrow> bool" where
  \<comment> \<open>the class \<open>\w\<close>\<close>
  "is_word c = (is_alpha c \<or> is_digit c \<or> ord c = 95)"

definition lower_char :: "char \<Rightarrow> char" where
  "lower_char c = (if is_upper c then char_of (ord c + 32) else c)"

definition lower :: "string \<Rightarrow> string" where
  "lower s = map lower_char s"

definition strip :: "string \<Rightarrow> string" where
  "strip s = rev (dropWhile is_space (rev (dropWhile is_space s)))"

fun startswith :: "string \<Rightarrow> string \<Rightarrow> bool" where
  "startswith s [] = True"
| "startswith [] (c # p) = False"
| "startswith (d # s) (c # p) = (d = c \<and> startswith s p)"

fun contains :: "string \<Rightarrow> string \<Rightarrow> bool" where
  \<comment> \<open>\<open>contains s sub\<close> is Python's \<open>sub in s\<close>\<close>
  "contains [] sub = (sub = [])"
| "contains (c # s) sub = (startswith (c # s) sub \<or> contains s sub)"

fun join :: "string \<Rightarrow> string list \<Rightarrow> string" where
  "join sep [] = []"
| "join sep [x] = x"
| "join sep (x # y # ys) = x @ sep @ join sep (y # ys)"

definition digit_char :: "nat \<Rightarrow> char" where
  "digit_char d = char_of (48 + d)"

fun str_nat :: "nat \<Rightarrow> string" where
  "str_nat n = (if n < 10 then [digit_char n] else str_nat (n div 10) @ [digit_char (n mod 10)])"

declare str_nat.simps [simp del]

text \<open>
  A Python \<open>set\<close> built from a sequence is the list of its distinct elements.  Python leaves
  the order of iteration over a set open; \<open>py_set\<close> lists the elements by first occurrence,
  and no statement below depends on that order.
\<close>

definition py_set :: "'a list \<Rightarrow> 'a list" where
  "py_set xs = rev (remdups (rev xs))"

definition str_int :: "int \<Rightarrow> string" where
  "str_int i = (if i < 0 then CHR ''-'' # str_nat (nat (- i)) else str_nat (nat i))"

section \<open>The document compatibility checker\<close>

subsection \<open>Data\<close>

datatype severity = LOW | MEDIUM | HIGH

record issue =
  severity :: severity
  issue_text :: string
  deduction :: int

text \<open>
  The loaded document, as far as the checker reads it.  A run's font size is kept in
  half-points, the unit a DOCX stores; \<open>size.pt\<close> is half of it.  A section's
  \<open>columns\<close> attribute may be missing, may fail when read, or gives a count.
\<close>

record run =
  font_name :: "string option"
  font_size :: "nat option"

record doc_paragraph =
  p_text :: string
  runs :: "run list"

datatype columns_attr = NoColumns | ColumnsRaise | ColumnsCount int

record doc_section =
  columns :: columns_attr
  header_paragraphs :: "string list"
  footer_paragraphs :: "string list"

record document =
  tables :: nat
  sections :: "doc_section list"
  paragraphs :: "doc_paragraph list"
  rels :: "string list"

text \<open>
  The rules table with its recognised keys.  \<open>size_min\<close> and \<open>size_max\<close> are read with
  \<open>.get\<close> and default to 10 and 12.  The \<open>scoring\<close> block is carried as the file has it.
\<close>

record scoring =
  file_format_weight :: int
  layout_weight :: int
  font_weight :: int
  graphics_weight :: int
  headers_weight :: int

record rules =
  file_formats_allowed :: "string list"
  file_formats_prohibited :: "string list"
  fonts_allowed :: "string list"
  size_min :: "int option"
  size_max :: "int option"
  rules_scoring :: scoring

record checker =
  cv_path :: string
  issues :: "issue list"
  score :: int
  crules :: rules
  doc :: "document option"

text \<open>The class constant \<open>SCORING_WEIGHTS\<close>.\<close>

datatype weight_key = W_file_format | W_layout | W_font | W_graphics | W_headers_footers

fun SCORING_WEIGHTS :: "weight_key \<Rightarrow> int" where
  "SCORING_WEIGHTS W_file_format = 30"
| "SCORING_WEIGHTS W_layout = 25"
| "SCORING_WEIGHTS W_font = 10"
| "SCORING_WEIGHTS W_graphics = 20"
| "SCORING_WEIGHTS W_headers_footers = 15"

definition default_rules :: rules where
  "default_rules = \<lparr> file_formats_allowed = [''.docx''],
     file_formats_prohibited = [''.pdf'', ''.doc''],
     fonts_allowed = [''Calibri'', ''Arial'', ''Times New Roman''],
     size_min = Some 10, size_max = Some 12,
     rules_scoring = \<lparr> file_format_weight = 30, layout_weight = 25, font_weight = 10,
       graphics_weight = 20, headers_weight = 15 \<rparr> \<rparr>"

subsection \<open>\<open>os.path.splitext\<close> (POSIX)\<close>

fun rfind_char :: "char \<Rightarrow> string \<Rightarrow> int" where
  \<comment> \<open>index of the last occurrence, or -1\<close>
  "rfind_char c [] = -1"
| "rfind_char c (d # s) =
     (let r = rfind_char c s in if r \<ge> 0 then r + 1 else if d = c then 0 else -1)"

definition splitext :: "string \<Rightarrow> string \<times> string" where
  "splitext p =
     (let sepIndex = rfind_char (CHR ''/'') p;
          dotIndex = rfind_char (CHR ''.'') p
      in if dotIndex > sepIndex \<and>
            (\<exists>c \<in> set (take (nat (dotIndex - (sepIndex + 1))) (drop (nat (sepIndex + 1)) p)).
               c \<noteq> CHR ''.'')
         then (take (nat dotIndex) p, drop (nat dotIndex) p)
         else (p, []))"

subsection \<open>Construction\<close>

datatype error = ValueError string | AttributeError string

text \<open>
  \<open>loaded\<close> is what the DOCX reader gives for the path: the document, or its failure.
  It is consulted only when the extension is \<open>.docx\<close>.
\<close>

definition ATSCompatibilityChecker :: "string \<Rightarrow> rules \<Rightarrow> string + document \<Rightarrow> error + checker" where
  "ATSCompatibilityChecker path rs loaded =
     (let c = \<lparr> cv_path = path, issues = [], score = 100, crules = rs, doc = None \<rparr>
      in if lower (snd (splitext path)) = ''.docx''
         then (case loaded of
                 Inl e \<Rightarrow> Inl (ValueError (''Could not read DOCX file: '' @ e))
               | Inr d \<Rightarrow> Inr (c\<lparr>doc := Some d\<rparr>))
         else Inr c)"

subsection \<open>The checks\<close>

text \<open>Each check returns its (non-positive) contribution and the checker with the issues appended.\<close>

definition check_file_format :: "checker \<Rightarrow> int \<times> checker" where
  "check_file_format c =
     (let ext = snd (splitext (cv_path c));
          allowed = file_formats_allowed (crules c)
      in if lower ext \<notin> set allowed
         then (let deduction = - SCORING_WEIGHTS W_file_format
               in (deduction,
                   c\<lparr>issues := issues c @
                     [\<lparr> severity = HIGH,
                        issue_text = ''File format is '' @ ext @ '', should be '' @ join '', '' allowed,
                        deduction = abs deduction \<rparr>]\<rparr>))
         else (0, c))"

fun multi_column :: "doc_section list \<Rightarrow> bool" where
  \<comment> \<open>the loop over the sections: true when it reaches a section with more than one column\<close>
  "multi_column [] = False"
| "multi_column (s # ss) =
     (case columns s of
        NoColumns \<Rightarrow> multi_column ss
      | ColumnsRaise \<Rightarrow> multi_column ss
      | ColumnsCount n \<Rightarrow> if n > 1 then True else multi_column ss)"

definition check_layout :: "checker \<Rightarrow> int \<times> checker" where
  "check_layout c =
     (case doc c of
        None \<Rightarrow> (0, c)
      | Some d \<Rightarrow>
          (let (ded1, is1) =
                 (if tables d > 0
                  then (15, [\<lparr> severity = HIGH,
                               issue_text = ''Found '' @ str_nat (tables d) @
                                 '' table(s) - ATS may not parse correctly'',
                               deduction = 15 \<rparr>])
                  else (0, []));
               (ded2, is2) =
                 (if multi_column (sections d)
                  then (ded1 + 10, is1 @ [\<lparr> severity = HIGH,
                               issue_text = ''Multi-column layout detected'',
                               deduction = 10 \<rparr>])
                  else (ded1, is1))
           in (- ded2, c\<lparr>issues := issues c @ is2\<rparr>)))"

definition all_runs :: "document \<Rightarrow> run list" where
  "all_runs d = concat (map runs (paragraphs d))"

definition non_standard_fonts :: "string list \<Rightarrow> run list \<Rightarrow> string list" where
  \<comment> \<open>the set of font names outside the allowed list, in order of first occurrence\<close>
  "non_standard_fonts allowed rs =
     py_set (concat (map (\<lambda>r. case font_name r of
                            None \<Rightarrow> []
                          | Some n \<Rightarrow> if n \<noteq> [] \<and> n \<notin> set allowed then [n] else []) rs))"

definition invalid_sizes :: "int \<Rightarrow> int \<Rightarrow> run list \<Rightarrow> nat list" where
  \<comment> \<open>the out-of-range sizes, in half-points: \<open>hp / 2 < min\<close> or \<open>hp / 2 > max\<close>\<close>
  "invalid_sizes min_size max_size rs =
     concat (map (\<lambda>r. case font_size r of
                         None \<Rightarrow> []
                       | Some hp \<Rightarrow> if hp \<noteq> 0 \<and> (int hp < 2 * min_size \<or> int hp > 2 * max_size)
                                    then [hp] else []) rs)"

definition str_pt :: "nat \<Rightarrow> string" where
  \<comment> \<open>\<open>str\<close> of the float \<open>hp / 2\<close>\<close>
  "str_pt hp = str_nat (hp div 2) @ (if even hp then ''.0'' else ''.5'')"

definition check_fonts :: "checker \<Rightarrow> int \<times> checker" where
  "check_fonts c =
     (case doc c of
        None \<Rightarrow> (0, c)
      | Some d \<Rightarrow>
          (let allowed_fonts = fonts_allowed (crules c);
               min_size = (case size_min (crules c) of None \<Rightarrow> 10 | Some m \<Rightarrow> m);
               max_size = (case size_max (crules c) of None \<Rightarrow> 12 | Some m \<Rightarrow> m);
               nsf = non_standard_fonts allowed_fonts (all_runs d);
               inv = invalid_sizes min_size max_size (all_runs d);
               (ded1, is1) =
                 (if nsf \<noteq> []
                  then (SCORING_WEIGHTS W_font,
                        [\<lparr> severity = MEDIUM,
                           issue_text = ''Non-standard fonts detected: '' @ join '', '' nsf,
                           deduction = SCORING_WEIGHTS W_font \<rparr>])
                  else (0, []));
               (ded2, is2) =
                 (if inv \<noteq> []
                  then (ded1 + 5,
                        is1 @ [\<lparr> severity = LOW,
                           issue_text = ''Font sizes outside recommended range ('' @ str_int min_size @
                             ''-'' @ str_int max_size @ ''pt): '' @
                             join '', '' (map str_pt (py_set inv)),
                           deduction = 5 \<rparr>])
                  else (ded1, is1))
           in (- ded2, c\<lparr>issues := issues c @ is2\<rparr>)))"

definition has_content :: "string list \<Rightarrow> bool" where
  \<comment> \<open>\<open>any(p.text.strip() for p in paragraphs)\<close>\<close>
  "has_content ps = (\<exists>t \<in> set ps. strip t \<noteq> [])"

definition header_issue :: issue where
  "header_issue = \<lparr> severity = MEDIUM,
     issue_text = ''Header contains text - ATS may not read it'', deduction = 8 \<rparr>"

definition footer_issue :: issue where
  "footer_issue = \<lparr> severity = MEDIUM,
     issue_text = ''Footer contains text - ATS may not read it'', deduction = 7 \<rparr>"

fun headers_footers_loop :: "doc_section list \<Rightarrow> int \<Rightarrow> issue list \<Rightarrow> int \<times> issue list" where
  "headers_footers_loop [] ded iss = (ded, iss)"
| "headers_footers_loop (s # ss) ded iss =
     (let (ded1, is1) =
            (if header_paragraphs s \<noteq> [] \<and> has_content (header_paragraphs s)
             then (ded + 8, iss @ [header_issue]) else (ded, iss));
          (ded2, is2) =
            (if footer_paragraphs s \<noteq> [] \<and> has_content (footer_paragraphs s)
             then (ded1 + 7, is1 @ [footer_issue]) else (ded1, is1))
      in headers_footers_loop ss ded2 is2)"

definition check_headers_footers :: "checker \<Rightarrow> int \<times> checker" where
  "check_headers_footers c =
     (case doc c of
        None \<Rightarrow> (0, c)
      | Some d \<Rightarrow>
          (let (ded, iss) = headers_footers_loop (sections d) 0 (issues c)
           in (- ded, c\<lparr>issues := iss\<rparr>)))"

definition has_graphics :: "string list \<Rightarrow> bool" where
  "has_graphics rs = (\<exists>t \<in> set rs. contains (lower t) ''image'')"

definition check_graphics :: "checker \<Rightarrow> int \<times> checker" where
  "check_graphics c =
     (case doc c of
        None \<Rightarrow> (0, c)
      | Some d \<Rightarrow>
          (if has_graphics (rels d)
           then (- SCORING_WEIGHTS W_graphics,
                 c\<lparr>issues := issues c @
                   [\<lparr> severity = HIGH,
                      issue_text = ''Images/graphics detected - ATS cannot read these'',
                      deduction = SCORING_WEIGHTS W_graphics \<rparr>]\<rparr>)
           else (0, c)))"

definition unusual_bullets :: "string list" where
  \<comment> \<open>U+2192, U+25BA, U+25AA, U+25AB, U+25A0, U+25A1, U+25C6, U+25C7 in UTF-8\<close>
  "unusual_bullets =
     [ [CHR 0xE2, CHR 0x86, CHR 0x92], [CHR 0xE2, CHR 0x96, CHR 0xBA],
      [CHR 0xE2, CHR 0x96, CHR 0xAA], [CHR 0xE2, CHR 0x96, CHR 0xAB],
      [CHR 0xE2, CHR 0x96, CHR 0xA0], [CHR 0xE2, CHR 0x96, CHR 0xA1],
      [CHR 0xE2, CHR 0x97, CHR 0x86], [CHR 0xE2, CHR 0x97, CHR 0x87] ]"

definition check_special_characters :: "checker \<Rightarrow> int \<times> checker" where
  "check_special_characters c =
     (case doc c of
        None \<Rightarrow> (0, c)
      | Some d \<Rightarrow>
          (let text = join [CHR 0x0A] (map p_text (paragraphs d));
               found_unusual = filter (\<lambda>b. contains text b) unusual_bullets
           in if found_unusual \<noteq> []
              then (- 5, c\<lparr>issues := issues c @
                      [\<lparr> severity = LOW,
                         issue_text = ''Unusual bullet points detected: '' @ join '', '' found_unusual,
                         deduction = 5 \<rparr>]\<rparr>)
              else (0, c)))"

subsection \<open>Score and report\<close>

definition calculate_total_score :: "checker \<Rightarrow> int \<times> checker" where
  "calculate_total_score c0 =
     (let c = c0\<lparr>score := 100\<rparr>;
          (r, c) = check_file_format c; c = c\<lparr>score := score c + r\<rparr>;
          (r, c) = check_layout c; c = c\<lparr>score := score c + r\<rparr>;
          (r, c) = check_fonts c; c = c\<lparr>score := score c + r\<rparr>;
          (r, c) = check_headers_footers c; c = c\<lparr>score := score c + r\<rparr>;
          (r, c) = check_graphics c; c = c\<lparr>score := score c + r\<rparr>;
          (r, c) = check_special_characters c; c = c\<lparr>score := score c + r\<rparr>
      in (max 0 (score c), c))"

definition get_grade :: "int \<Rightarrow> string" where
  "get_grade s =
     (if s \<ge> 90 then ''A - Excellent''
      else if s \<ge> 80 then ''B - Good''
      else if s \<ge> 70 then ''C - Acceptable''
      else if s \<ge> 60 then ''D - Needs Improvement''
      else ''F - Major Issues'')"

definition recommendation_for :: "issue \<Rightarrow> string list" where
  "recommendation_for i =
     (let issue_lower = lower (issue_text i)
      in if contains issue_lower ''table''
           then [''Remove all tables and use plain text with bullets'']
         else if contains issue_lower ''column''
           then [''Convert to single-column layout'']
         else if contains issue_lower ''font''
           then [''Change all fonts to Calibri, Arial, or Times New Roman (10-12pt)'']
         else if contains issue_lower ''header'' \<or> contains issue_lower ''footer''
           then [''Move all header/footer content into main document body'']
         else if contains issue_lower ''image'' \<or> contains issue_lower ''graphic''
           then [''Remove all images, logos, and graphics'']
         else if contains issue_lower ''format''
           then [''Convert file to .docx format'']
         else [])"

definition get_recommendations :: "checker \<Rightarrow> string list" where
  "get_recommendations c = py_set (concat (map recommendation_for (issues c)))"

record report =
  r_score :: int
  r_grade :: string
  r_issues :: "issue list"
  r_recommendations :: "string list"

definition generate_report :: "checker \<Rightarrow> report \<times> checker" where
  "generate_report c0 =
     (let (total_score, c) = calculate_total_score c0
      in (\<lparr> r_score = total_score,
            r_grade = get_grade total_score,
            r_issues = sort_key (\<lambda>i. - deduction i) (issues c),
            r_recommendations = get_recommendations c \<rparr>, c))"

subsection \<open>What each check appends\<close>

definition total_deduction :: "issue list \<Rightarrow> int" where
  "total_deduction is = sum_list (map deduction is)"

definition file_format_issues :: "checker \<Rightarrow> issue list" where
  "file_format_issues c =
     (let ext = snd (splitext (cv_path c)); allowed = file_formats_allowed (crules c)
      in if lower ext \<notin> set allowed
         then [\<lparr> severity = HIGH,
                 issue_text = ''File format is '' @ ext @ '', should be '' @ join '', '' allowed,
                 deduction = 30 \<rparr>]
         else [])"

definition layout_issues :: "document \<Rightarrow> issue list" where
  "layout_issues d =
     (if tables d > 0
      then [\<lparr> severity = HIGH,
              issue_text = ''Found '' @ str_nat (tables d) @ '' table(s) - ATS may not parse correctly'',
              deduction = 15 \<rparr>]
      else []) @
     (if multi_column (sections d)
      then [\<lparr> severity = HIGH, issue_text = ''Multi-column layout detected'', deduction = 10 \<rparr>]
      else [])"

definition rules_min :: "rules \<Rightarrow> int" where
  "rules_min rs = (case size_min rs of None \<Rightarrow> 10 | Some m \<Rightarrow> m)"

definition rules_max :: "rules \<Rightarrow> int" where
  "rules_max rs = (case size_max rs of None \<Rightarrow> 12 | Some m \<Rightarrow> m)"

definition font_name_issues :: "rules \<Rightarrow> document \<Rightarrow> issue list" where
  "font_name_issues rs d =
     (let nsf = non_standard_fonts (fonts_allowed rs) (all_runs d)
      in if nsf \<noteq> []
         then [\<lparr> severity = MEDIUM,
                 issue_text = ''Non-standard fonts detected: '' @ join '', '' nsf,
                 deduction = 10 \<rparr>]
         else [])"

definition font_size_issues :: "rules \<Rightarrow> document \<Rightarrow> issue list" where
  "font_size_issues rs d =
     (let inv = invalid_sizes (rules_min rs) (rules_max rs) (all_runs d)
      in if inv \<noteq> []
         then [\<lparr> severity = LOW,
                 issue_text = ''Font sizes outside recommended range ('' @ str_int (rules_min rs) @
                    ''-'' @ str_int (rules_max rs) @ ''pt): '' @ join '', '' (map str_pt (py_set inv)),
                 deduction = 5 \<rparr>]
         else [])"

definition section_issues :: "doc_section \<Rightarrow> issue list" where
  "section_issues s =
     (if header_paragraphs s \<noteq> [] \<and> has_content (header_paragraphs s) then [header_issue] else []) @
     (if footer_paragraphs s \<noteq> [] \<and> has_content (footer_paragraphs s) then [footer_issue] else [])"

definition graphics_issues :: "document \<Rightarrow> issue list" where
  "graphics_issues d =
     (if has_graphics (rels d)
      then [\<lparr> severity = HIGH, issue_text = ''Images/graphics detected - ATS cannot read these'',
              deduction = 20 \<rparr>]
      else [])"

definition found_unusual :: "document \<Rightarrow> string list" where
  "found_unusual d =
     filter (\<lambda>b. contains (join [CHR 0x0A] (map p_text (paragraphs d))) b) unusual_bullets"

definition special_issues :: "document \<Rightarrow> issue list" where
  "special_issues d =
     (if found_unusual d \<noteq> []
      then [\<lparr> severity = LOW,
              issue_text = ''Unusual bullet points detected: '' @ join '', '' (found_unusual d),
              deduction = 5 \<rparr>]
      else [])"

definition document_issues :: "rules \<Rightarrow> document \<Rightarrow> issue list" where
  "document_issues rs d =
     layout_issues d @ font_name_issues rs d @ font_size_issues rs d @
     concat (map section_issues (sections d)) @ graphics_issues d @ special_issues d"

definition new_issues :: "checker \<Rightarrow> issue list" where
  "new_issues c =
     file_format_issues c @ (case doc c of None \<Rightarrow> [] | Some d \<Rightarrow> document_issues (crules c) d)"

definition appended :: "(checker \<Rightarrow> int \<times> checker) \<Rightarrow> checker \<Rightarrow> issue list" where
  "appended check c = drop (length (issues c)) (issues (snd (check c)))"

inductive adds_violations :: "document \<Rightarrow> document \<Rightarrow> bool" where
  same: "adds_violations d d"
| more: "adds_violations d d' \<Longrightarrow> adds_violations d' d'' \<Longrightarrow> adds_violations d d''"
| add_tables: "adds_violations d (d\<lparr>tables := tables d + n\<rparr>)"
| add_section: "sections d = xs @ ys \<Longrightarrow> adds_violations d (d\<lparr>sections := xs @ [s] @ ys\<rparr>)"
| add_columns: "sections d = xs @ [s] @ ys \<Longrightarrow> 1 < n \<Longrightarrow>
     adds_violations d (d\<lparr>sections := xs @ [s\<lparr>columns := ColumnsCount n\<rparr>] @ ys\<rparr>)"
| add_header: "sections d = xs @ [s] @ ys \<Longrightarrow>
     adds_violations d (d\<lparr>sections := xs @ [s\<lparr>header_paragraphs := header_paragraphs s @ [t]\<rparr>] @ ys\<rparr>)"
| add_footer: "sections d = xs @ [s] @ ys \<Longrightarrow>
     adds_violations d (d\<lparr>sections := xs @ [s\<lparr>footer_paragraphs := footer_paragraphs s @ [t]\<rparr>] @ ys\<rparr>)"
| add_paragraph: "paragraphs d = ps @ qs \<Longrightarrow> adds_violations d (d\<lparr>paragraphs := ps @ [p] @ qs\<rparr>)"
| add_run: "paragraphs d = ps @ [p] @ qs \<Longrightarrow> runs p = rs @ rs' \<Longrightarrow>
     adds_violations d (d\<lparr>paragraphs := ps @ [p\<lparr>runs := rs @ [r] @ rs'\<rparr>] @ qs\<rparr>)"
| set_font: "paragraphs d = ps @ [p] @ qs \<Longrightarrow> runs p = rs @ [r] @ rs' \<Longrightarrow> font_name r = None \<Longrightarrow>
     adds_violations d (d\<lparr>paragraphs := ps @ [p\<lparr>runs := rs @ [r\<lparr>font_name := Some n\<rparr>] @ rs'\<rparr>] @ qs\<rparr>)"
| set_size: "paragraphs d = ps @ [p] @ qs \<Longrightarrow> runs p = rs @ [r] @ rs' \<Longrightarrow> font_size r = None \<Longrightarrow>
     adds_violations d (d\<lparr>paragraphs := ps @ [p\<lparr>runs := rs @ [r\<lparr>font_size := Some hp\<rparr>] @ rs'\<rparr>] @ qs\<rparr>)"
| add_text: "paragraphs d = ps @ [p] @ qs \<Longrightarrow>
     adds_violations d (d\<lparr>paragraphs := ps @ [p\<lparr>p_text := pre @ p_text p @ post\<rparr>] @ qs\<rparr>)"
| add_rel: "rels d = xs @ ys \<Longrightarrow> adds_violations d (d\<lparr>rels := xs @ [r] @ ys\<rparr>)"

definition run_le :: "run \<Rightarrow> run \<Rightarrow> bool" where
  \<comment> \<open>the second run has every font name and size the first one has\<close>
  "run_le r r' =
     ((font_name r = None \<or> font_name r' = font_name r) \<and>
      (font_size r = None \<or> font_size r' = font_size r))"

definition dominates :: "rules \<Rightarrow> document \<Rightarrow> document \<Rightarrow> bool" where
  "dominates rs d d' \<longleftrightarrow>
     (0 < tables d \<longrightarrow> 0 < tables d') \<and>
     (multi_column (sections d) \<longrightarrow> multi_column (sections d')) \<and>
     (non_standard_fonts (fonts_allowed rs) (all_runs d) \<noteq> [] \<longrightarrow>
        non_standard_fonts (fonts_allowed rs) (all_runs d') \<noteq> []) \<and>
     (invalid_sizes (rules_min rs) (rules_max rs) (all_runs d) \<noteq> [] \<longrightarrow>
        invalid_sizes (rules_min rs) (rules_max rs) (all_runs d') \<noteq> []) \<and>
     total_deduction (concat (map section_issues (sections d)))
       \<le> total_deduction (concat (map section_issues (sections d'))) \<and>
     (has_graphics (rels d) \<longrightarrow> has_graphics (rels d')) \<and>
     (found_unusual d \<noteq> [] \<longrightarrow> found_unusual d' \<noteq> [])"

subsection \<open>Sample documents\<close>

definition clean_document :: document where
  "clean_document = \<lparr> tables = 0,
     sections = [\<lparr> columns = NoColumns, header_paragraphs = [], footer_paragraphs = [] \<rparr>],
     paragraphs = [\<lparr> p_text = ''Data Analyst'',
                     runs = [\<lparr> font_name = Some ''Calibri'', font_size = Some 22 \<rparr>] \<rparr>],
     rels = [''styles.xml''] \<rparr>"

definition busy_document :: document where
  "busy_document = \<lparr> tables = 1,
     sections = [\<lparr> columns = NoColumns, header_paragraphs = [], footer_paragraphs = [] \<rparr>],
     paragraphs = [\<lparr> p_text = ''Profile'',
                     runs = [\<lparr> font_name = Some ''Papyrus'', font_size = Some 28 \<rparr>] \<rparr>],
     rels = [''media/image1.png''] \<rparr>"


definition sample_checker :: "string \<Rightarrow> rules \<Rightarrow> document option \<Rightarrow> checker" where
  "sample_checker path rs d = \<lparr> cv_path = path, issues = [], score = 100, crules = rs, doc = d \<rparr>"


definition score_of_file :: "string \<Rightarrow> rules \<Rightarrow> string + document \<Rightarrow> error + int" where
  \<comment> \<open>construct the checker for a path, then run \<open>calculate_total_score\<close>\<close>
  "score_of_file path rs loaded =
     (case ATSCompatibilityChecker path rs loaded of
        Inl e \<Rightarrow> Inl e
      | Inr c \<Rightarrow> Inr (fst (calculate_total_score c)))"

section \<open>Regular expressions\<close>

text \<open>
  The patterns of the source, as syntax trees, and the backtracking matcher of Python's
  \<open>re\<close> on them.  Every repetition in the source's patterns is over a set of single
  characters (\<open>Many\<close>) or is an optional group (\<open>Opt\<close>); no pattern has more than one
  capturing group (\<open>Grp\<close>).  \<open>rx_match\<close> lists the ways a pattern matches from a
  position, in the order the backtracking matcher tries them: each is the end position and
  the span of the capturing group.
\<close>

definition upper_char :: "char \<Rightarrow> char" where
  "upper_char c = (if is_lower c then char_of (ord c - 32) else c)"

datatype cc = CChar char | CRange char char | CSpace | CDigit | CWord

datatype greed = Greedy | Lazy

datatype rx =
    Lit string
  | One bool "cc list"
  | Many greed nat bool "cc list"
  | Opt rx
  | Cat rx rx
  | Alt rx rx
  | Grp rx
  | Bol
  | Eol
  | WordB
  | Ahead rx

record flags =
  ignorecase :: bool
  multiline :: bool

definition no_flags :: flags where
  "no_flags = \<lparr> ignorecase = False, multiline = False \<rparr>"

definition IGNORECASE :: flags where
  "IGNORECASE = \<lparr> ignorecase = True, multiline = False \<rparr>"

definition MULTILINE :: flags where
  "MULTILINE = \<lparr> ignorecase = False, multiline = True \<rparr>"

definition MULTILINE_IGNORECASE :: flags where
  "MULTILINE_IGNORECASE = \<lparr> ignorecase = True, multiline = True \<rparr>"

definition in_range :: "char \<Rightarrow> char \<Rightarrow> char \<Rightarrow> bool" where
  "in_range a b t = (ord a \<le> ord t \<and> ord t \<le> ord b)"

fun cc_match :: "bool \<Rightarrow> cc \<Rightarrow> char \<Rightarrow> bool" where
  "cc_match ic (CChar c) t = (if ic then lower_char c = lower_char t else c = t)"
| "cc_match ic (CRange a b) t =
     (in_range a b t \<or> (ic \<and> (in_range a b (lower_char t) \<or> in_range a b (upper_char t))))"
| "cc_match ic CSpace t = is_space t"
| "cc_match ic CDigit t = is_digit t"
| "cc_match ic CWord t = is_word t"

definition set_match :: "bool \<Rightarrow> bool \<Rightarrow> cc list \<Rightarrow> char \<Rightarrow> bool" where
  \<comment> \<open>a bracket set, negated when \<open>neg\<close>\<close>
  "set_match ic neg cs t = (neg \<noteq> list_ex (\<lambda>c. cc_match ic c t) cs)"

definition lit_at :: "bool \<Rightarrow> string \<Rightarrow> string \<Rightarrow> nat \<Rightarrow> bool" where
  "lit_at ic s t p =
     (p + length s \<le> length t \<and>
      (if ic then lower (take (length s) (drop p t)) = lower s
       else take (length s) (drop p t) = s))"

definition word_before :: "string \<Rightarrow> nat \<Rightarrow> bool" where
  "word_before t p = (0 < p \<and> p \<le> length t \<and> is_word (t ! (p - 1)))"

definition word_after :: "string \<Rightarrow> nat \<Rightarrow> bool" where
  "word_after t p = (p < length t \<and> is_word (t ! p))"

definition boundary :: "string \<Rightarrow> nat \<Rightarrow> bool" where
  \<comment> \<open>\<open>\b\<close>: exactly one of the two neighbours is a word character\<close>
  "boundary t p = (word_before t p \<noteq> word_after t p)"

definition line_start :: "flags \<Rightarrow> string \<Rightarrow> nat \<Rightarrow> bool" where
  "line_start f t p = (p = 0 \<or> (multiline f \<and> p \<le> length t \<and> t ! (p - 1) = CHR 0x0A))"

definition line_end :: "flags \<Rightarrow> string \<Rightarrow> nat \<Rightarrow> bool" where
  "line_end f t p =
     (p = length t \<or>
      (p < length t \<and> t ! p = CHR 0x0A \<and> (multiline f \<or> Suc p = length t)))"

type_synonym mstate = "nat \<times> (nat \<times> nat) option"

fun rx_match :: "flags \<Rightarrow> string \<Rightarrow> rx \<Rightarrow> mstate \<Rightarrow> mstate list" where
  "rx_match f t (Lit s) (p, g) =
     (if lit_at (ignorecase f) s t p then [(p + length s, g)] else [])"
| "rx_match f t (One neg cs) (p, g) =
     (if p < length t \<and> set_match (ignorecase f) neg cs (t ! p) then [(Suc p, g)] else [])"
| "rx_match f t (Many gr n neg cs) (p, g) =
     (let k = length (takeWhile (set_match (ignorecase f) neg cs) (drop p t));
          ks = [n ..< Suc k]
      in map (\<lambda>j. (p + j, g)) (case gr of Greedy \<Rightarrow> rev ks | Lazy \<Rightarrow> ks))"
| "rx_match f t (Opt r) (p, g) = rx_match f t r (p, g) @ [(p, g)]"
| "rx_match f t (Cat r1 r2) (p, g) = concat (map (rx_match f t r2) (rx_match f t r1 (p, g)))"
| "rx_match f t (Alt r1 r2) (p, g) = rx_match f t r1 (p, g) @ rx_match f t r2 (p, g)"
| "rx_match f t (Grp r) (p, g) = map (\<lambda>m. (fst m, Some (p, fst m))) (rx_match f t r (p, g))"
| "rx_match f t Bol (p, g) = (if line_start f t p then [(p, g)] else [])"
| "rx_match f t Eol (p, g) = (if line_end f t p then [(p, g)] else [])"
| "rx_match f t WordB (p, g) = (if boundary t p then [(p, g)] else [])"
| "rx_match f t (Ahead r) (p, g) = (if rx_match f t r (p, g) \<noteq> [] then [(p, g)] else [])"

record rmatch =
  m_start :: nat
  m_end :: nat
  m_group1 :: "(nat \<times> nat) option"

definition match_at :: "flags \<Rightarrow> rx \<Rightarrow> string \<Rightarrow> nat \<Rightarrow> rmatch option" where
  "match_at f r t p =
     (case rx_match f t r (p, None) of
        [] \<Rightarrow> None
      | m # _ \<Rightarrow> Some \<lparr> m_start = p, m_end = fst m, m_group1 = snd m \<rparr>)"

fun first_match :: "flags \<Rightarrow> rx \<Rightarrow> string \<Rightarrow> nat list \<Rightarrow> rmatch option" where
  "first_match f r t [] = None"
| "first_match f r t (p # ps) =
     (case match_at f r t p of None \<Rightarrow> first_match f r t ps | Some m \<Rightarrow> Some m)"

definition re_search :: "flags \<Rightarrow> rx \<Rightarrow> string \<Rightarrow> rmatch option" where
  "re_search f r t = first_match f r t [0 ..< Suc (length t)]"

definition re_match :: "flags \<Rightarrow> rx \<Rightarrow> string \<Rightarrow> rmatch option" where
  "re_match f r t = match_at f r t 0"

fun scan_matches :: "flags \<Rightarrow> rx \<Rightarrow> string \<Rightarrow> nat \<Rightarrow> nat list \<Rightarrow> rmatch list" where
  \<comment> \<open>the successive non-overlapping matches; \<open>nxt\<close> is where the next one may start\<close>
  "scan_matches f r t nxt [] = []"
| "scan_matches f r t nxt (p # ps) =
     (if p < nxt then scan_matches f r t nxt ps
      else (case match_at f r t p of
              None \<Rightarrow> scan_matches f r t nxt ps
            | Some m \<Rightarrow> m # scan_matches f r t (if m_end m = p then Suc p else m_end m) ps))"

definition re_finditer :: "flags \<Rightarrow> rx \<Rightarrow> string \<Rightarrow> rmatch list" where
  "re_finditer f r t = scan_matches f r t 0 [0 ..< Suc (length t)]"

definition substring :: "string \<Rightarrow> nat \<Rightarrow> nat \<Rightarrow> string" where
  \<comment> \<open>\<open>t[i:j]\<close> for \<open>0 \<le> i\<close>\<close>
  "substring t i j = take (j - i) (drop i t)"

definition group0 :: "string \<Rightarrow> rmatch \<Rightarrow> string" where
  "group0 t m = substring t (m_start m) (m_end m)"

definition group1 :: "string \<Rightarrow> rmatch \<Rightarrow> string" where
  \<comment> \<open>used only on patterns whose capturing group takes part in every match\<close>
  "group1 t m = (case m_group1 m of None \<Rightarrow> [] | Some (i, j) \<Rightarrow> substring t i j)"

section \<open>The keyword matcher\<close>

text \<open>
  Python floats are taken as exact rationals, and \<open>round(x, 1)\<close> as rounding to the
  nearest tenth with ties to the even tenth.  A dictionary is the list of its items in
  insertion order (its keys are distinct).
\<close>

definition round_half_even :: "rat \<Rightarrow> int" where
  "round_half_even x =
     (let f = \<lfloor>x\<rfloor>; d = x - of_int f
      in if d < 1 / 2 then f else if 1 / 2 < d then f + 1 else if even f then f else f + 1)"

definition round1 :: "rat \<Rightarrow> rat" where
  "round1 x = of_int (round_half_even (x * 10)) / 10"

record category_stat =
  matched :: nat
  total :: nat
  percentage :: rat

record match_report =
  total_keywords :: nat
  matched_keywords :: nat
  missing_keywords :: nat
  match_percentage :: rat
  missing_keywords_list :: "string list"
  category_breakdown :: "(string \<times> category_stat) list"

record keyword_matcher =
  cv_text :: string
  jd_keywords :: "(string \<times> string list) list"


definition keyword_pattern :: "string \<Rightarrow> rx" where
  \<comment> \<open>\<open>r'\b' + re.escape(keyword) + r'\b'\<close>: the escaped keyword is the literal\<close>
  "keyword_pattern kw = Cat WordB (Cat (Lit kw) WordB)"

definition keyword_found :: "string \<Rightarrow> string \<Rightarrow> bool" where
  "keyword_found text kw = (re_search IGNORECASE (keyword_pattern kw) text \<noteq> None)"

definition normalised :: "string list \<Rightarrow> string list" where
  \<comment> \<open>\<open>[k.lower().strip() for k in keywords if k]\<close>\<close>
  "normalised kws = map (\<lambda>k. strip (lower k)) (filter (\<lambda>k. k \<noteq> []) kws)"

definition all_keywords :: "keyword_matcher \<Rightarrow> string list" where
  "all_keywords km = py_set (concat (map (\<lambda>(category, kws). normalised kws) (jd_keywords km)))"

definition matched_set :: "keyword_matcher \<Rightarrow> string list" where
  \<comment> \<open>the loop over \<open>all_keywords\<close>: the keywords it adds to \<open>matched_keywords\<close>\<close>
  "matched_set km = filter (keyword_found (cv_text km)) (all_keywords km)"

definition missing_list :: "keyword_matcher \<Rightarrow> string list" where
  \<comment> \<open>the same loop: the keywords it appends to \<open>missing_keywords\<close>\<close>
  "missing_list km = filter (\<lambda>k. \<not> keyword_found (cv_text km) k) (all_keywords km)"

definition category_stat_of :: "string \<Rightarrow> string list \<Rightarrow> category_stat" where
  "category_stat_of text kws =
     (let category_keywords = normalised kws;
          category_matched = length (filter (keyword_found text) category_keywords);
          total = length category_keywords
      in \<lparr> matched = category_matched, total = total,
           percentage = (if total > 0 then of_nat category_matched / of_nat total * 100 else 0) \<rparr>)"

definition calculate_match_percentage :: "keyword_matcher \<Rightarrow> match_report" where
  "calculate_match_percentage km =
     (let matched_keywords = matched_set km;
          missing_keywords = missing_list km;
          category_matches =
            map (\<lambda>(category, kws). (category, category_stat_of (cv_text km) kws)) (jd_keywords km);
          total_keywords = length (all_keywords km);
          matched_count = length matched_keywords;
          match_percentage =
            (if total_keywords > 0 then of_nat matched_count / of_nat total_keywords * 100 else 0)
      in \<lparr> total_keywords = total_keywords,
           matched_keywords = matched_count,
           missing_keywords = length missing_keywords,
           match_percentage = round1 match_percentage,
           missing_keywords_list = take 20 missing_keywords,
           category_breakdown = category_matches \<rparr>)"

subsection \<open>Whole-word occurrences and the recomputed percentage\<close>

definition occurs_at :: "string \<Rightarrow> string \<Rightarrow> nat \<Rightarrow> bool" where
  \<comment> \<open>the keyword stands at position \<open>i\<close> of the text, letter case apart\<close>
  "occurs_at text kw i =
     (i + length kw \<le> length text \<and> lower (take (length kw) (drop i text)) = lower kw)"

definition whole_word_at :: "string \<Rightarrow> string \<Rightarrow> nat \<Rightarrow> bool" where
  \<comment> \<open>an occurrence with no word character next to it on either side\<close>
  "whole_word_at text kw i =
     (occurs_at text kw i \<and> \<not> word_before text i \<and> \<not> word_after text (i + length kw))"



section \<open>The job description parser\<close>

subsection \<open>More of Python's strings and \<open>re\<close>\<close>

fun words_acc :: "string \<Rightarrow> string \<Rightarrow> string list" where
  "words_acc [] cur = (if cur = [] then [] else [cur])"
| "words_acc (c # s) cur =
     (if is_space c then (if cur = [] then words_acc s [] else cur # words_acc s [])
      else words_acc s (cur @ [c]))"

definition py_split :: "string \<Rightarrow> string list" where
  \<comment> \<open>\<open>s.split()\<close>: the maximal runs of non-space characters\<close>
  "py_split s = words_acc s []"

fun split_acc :: "char \<Rightarrow> string \<Rightarrow> string \<Rightarrow> string list" where
  "split_acc sep [] cur = [cur]"
| "split_acc sep (c # s) cur =
     (if c = sep then cur # split_acc sep s [] else split_acc sep s (cur @ [c]))"

definition split_on :: "char \<Rightarrow> string \<Rightarrow> string list" where
  \<comment> \<open>\<open>s.split(sep)\<close> for a one-character separator\<close>
  "split_on sep s = split_acc sep s []"

fun str_find :: "string \<Rightarrow> string \<Rightarrow> nat option" where
  "str_find [] sub = (if sub = [] then Some 0 else None)"
| "str_find (c # s) sub =
     (if startswith (c # s) sub then Some 0 else map_option Suc (str_find s sub))"

definition str_index :: "string \<Rightarrow> string \<Rightarrow> error + nat" where
  \<comment> \<open>\<open>s.index(sub)\<close> raises when \<open>sub\<close> does not occur\<close>
  "str_index s sub =
     (case str_find s sub of None \<Rightarrow> Inl (ValueError ''substring not found'') | Some i \<Rightarrow> Inr i)"

definition bind_err :: "error + 'a \<Rightarrow> ('a \<Rightarrow> error + 'b) \<Rightarrow> error + 'b" where
  "bind_err x f = (case x of Inl e \<Rightarrow> Inl e | Inr v \<Rightarrow> f v)"

fun map_err :: "('a \<Rightarrow> error + 'b) \<Rightarrow> 'a list \<Rightarrow> error + 'b list" where
  "map_err f [] = Inr []"
| "map_err f (x # xs) = bind_err (f x) (\<lambda>y. bind_err (map_err f xs) (\<lambda>ys. Inr (y # ys)))"

definition group1_strip :: "string \<Rightarrow> rmatch \<Rightarrow> error + string" where
  \<comment> \<open>\<open>match.group(1).strip()\<close>: \<open>group(1)\<close> is \<open>None\<close> when the group took no part\<close>
  "group1_strip t m =
     (case m_group1 m of
        None \<Rightarrow> Inl (AttributeError ''NoneType object has no attribute strip'')
      | Some (i, j) \<Rightarrow> Inr (strip (substring t i j)))"

fun pieces :: "string \<Rightarrow> nat \<Rightarrow> rmatch list \<Rightarrow> string list" where
  "pieces t pos [] = [drop pos t]"
| "pieces t pos (m # ms) = substring t pos (m_start m) # pieces t (m_end m) ms"

definition re_split :: "flags \<Rightarrow> rx \<Rightarrow> string \<Rightarrow> string list" where
  "re_split f r t = pieces t 0 (re_finditer f r t)"

definition re_sub :: "flags \<Rightarrow> rx \<Rightarrow> string \<Rightarrow> string \<Rightarrow> string" where
  "re_sub f r repl t = join repl (pieces t 0 (re_finditer f r t))"

fun seq :: "rx list \<Rightarrow> rx" where
  "seq [] = Lit []"
| "seq [r] = r"
| "seq (r # rs) = Cat r (seq rs)"

fun alts :: "rx list \<Rightarrow> rx" where
  "alts [] = Lit []"
| "alts [r] = r"
| "alts (r # rs) = Alt r (alts rs)"

definition ws0 :: rx where "ws0 = Many Greedy 0 False [CSpace]"
definition ws1 :: rx where "ws1 = Many Greedy 1 False [CSpace]"
definition newline :: char where "newline = CHR 0x0A"
definition bullet_glyph :: string where
  \<comment> \<open>U+2022 in UTF-8\<close>
  "bullet_glyph = [CHR 0xE2, CHR 0x80, CHR 0xA2]"
definition en_dash :: string where
  \<comment> \<open>U+2013 in UTF-8\<close>
  "en_dash = [CHR 0xE2, CHR 0x80, CHR 0x93]"

subsection \<open>The parser\<close>

record token =
  tok_text :: string
  is_stop :: bool
  tok_is_alpha :: bool

text \<open>
  \<open>nlp_doc\<close> is the spaCy document: \<open>None\<close> when the model could not be loaded.
\<close>

record jd_parser =
  jd_text :: string
  jd_text_lower :: string
  nlp_doc :: "token list option"

definition JobDescriptionParser :: "string \<Rightarrow> token list option \<Rightarrow> jd_parser" where
  "JobDescriptionParser text spacy_doc =
     \<lparr> jd_text = text, jd_text_lower = lower text, nlp_doc = spacy_doc \<rparr>"

definition title_chars :: rx where
  \<comment> \<open>\<open>[A-Z][a-zA-Z\s]+\<close>\<close>
  "title_chars = Cat (One False [CRange CHR ''A'' CHR ''Z''])
     (Many Greedy 1 False [CRange CHR ''a'' CHR ''z'', CRange CHR ''A'' CHR ''Z'', CSpace])"

definition title_chars_lazy :: rx where
  \<comment> \<open>\<open>[A-Z][a-zA-Z\s]+?\<close>\<close>
  "title_chars_lazy = Cat (One False [CRange CHR ''A'' CHR ''Z''])
     (Many Lazy 1 False [CRange CHR ''a'' CHR ''z'', CRange CHR ''A'' CHR ''Z'', CSpace])"

definition title_patterns :: "rx list" where
  "title_patterns =
     [seq [Lit ''hiring'', ws1, Alt (Lit ''a'') (Lit ''an''), ws1, Grp title_chars_lazy,
           alts [Cat ws1 (Lit ''at''), Cat ws1 (Lit ''to''), Lit ''.'', Lit '','']],
      seq [Bol, Grp title_chars_lazy, ws0, Alt (One False [CChar CHR ''-'']) (Lit en_dash), ws0,
           One False [CRange CHR ''A'' CHR ''Z'']],
      seq [Lit ''Position:'', ws0, Grp title_chars],
      seq [Lit ''Role:'', ws0, Grp title_chars],
      seq [Lit ''Job Title:'', ws0, Grp title_chars],
      seq [Lit ''Title:'', ws0, Grp title_chars]]"

definition clean_title :: "string \<Rightarrow> string" where
  \<comment> \<open>\<open>re.sub(r'\s+', ' ', title)\<close>\<close>
  "clean_title title = re_sub no_flags ws1 '' '' title"

fun try_patterns :: "string \<Rightarrow> rx list \<Rightarrow> error + string option" where
  \<comment> \<open>the loop over the templates: the first cleaned match of at most six words\<close>
  "try_patterns t [] = Inr None"
| "try_patterns t (p # ps) =
     (case re_search MULTILINE_IGNORECASE p t of
        None \<Rightarrow> try_patterns t ps
      | Some m \<Rightarrow>
          bind_err (group1_strip t m) (\<lambda>title0.
            let title = clean_title title0
            in if length (py_split title) \<le> 6 then Inr (Some title) else try_patterns t ps))"

definition capitalized_words :: "string list \<Rightarrow> bool" where
  \<comment> \<open>\<open>all(w[0].isupper() for w in words if w and w[0].isalpha())\<close>\<close>
  "capitalized_words ws =
     list_all (\<lambda>w. is_upper (hd w)) (filter (\<lambda>w. w \<noteq> [] \<and> is_alpha (hd w)) ws)"

fun fallback_title :: "string list \<Rightarrow> string option" where
  "fallback_title [] = None"
| "fallback_title (sent # sents) =
     (let ws = py_split (strip sent)
      in if 2 \<le> length ws \<and> length ws \<le> 5 \<and> capitalized_words ws
         then Some (join '' '' ws) else fallback_title sents)"

definition extract_job_title :: "jd_parser \<Rightarrow> error + string" where
  "extract_job_title p =
     bind_err (try_patterns (jd_text p) title_patterns) (\<lambda>r.
       case r of
         Some title \<Rightarrow> Inr title
       | None \<Rightarrow>
           (let first_para = take 500 (jd_text p)
            in case fallback_title (split_on CHR ''.'' first_para) of
                 Some title \<Rightarrow> Inr title
               | None \<Rightarrow> Inr ''Unknown Title''))"

definition skill_pattern :: "string list \<Rightarrow> rx" where
  \<comment> \<open>\<open>\b(A|B|...)\b\<close>\<close>
  "skill_pattern names = seq [WordB, Grp (alts (map Lit names)), WordB]"

definition SKILL_PATTERNS :: "(string \<times> rx) list" where
  "SKILL_PATTERNS =
     [(''programming'', skill_pattern [''Python'', ''Java'', ''JavaScript'', ''R'', ''SQL'', ''C++'',
         ''Scala'', ''Ruby'', ''Go'', ''TypeScript'']),
      (''tools'', skill_pattern [''Tableau'', ''Power BI'', ''Excel'', ''JIRA'', ''Git'', ''Docker'',
         ''AWS'', ''Azure'', ''GCP'', ''Kubernetes'', ''Jenkins'']),
      (''frameworks'', skill_pattern [''React'', ''Angular'', ''Django'', ''Flask'', ''Pandas'',
         ''NumPy'', ''TensorFlow'', ''PyTorch'', ''Spark'']),
      (''databases'', skill_pattern [''PostgreSQL'', ''MySQL'', ''MongoDB'', ''Redis'', ''Cassandra'',
         ''Oracle'', ''Snowflake'', ''Redshift'']),
      (''methodologies'', skill_pattern [''Agile'', ''Scrum'', ''Kanban'', ''Waterfall'', ''DevOps'',
         ''CI/CD''])]"

definition extract_technical_skills :: "jd_parser \<Rightarrow> string list" where
  \<comment> \<open>\<open>sorted(list(skills))\<close>\<close>
  "extract_technical_skills p =
     sort (remdups (concat (map (\<lambda>(category, pattern).
        map (group0 (jd_text p)) (re_finditer IGNORECASE pattern (jd_text p))) SKILL_PATTERNS)))"

definition REQUIRED_MARKERS :: "string list" where
  "REQUIRED_MARKERS = [''required'', ''must have'', ''essential'', ''mandatory'', ''must'', ''need'']"

definition PREFERRED_MARKERS :: "string list" where
  "PREFERRED_MARKERS = [''preferred'', ''nice to have'', ''desirable'', ''bonus'', ''plus'', ''advantage'']"

fun marker_sections :: "jd_parser \<Rightarrow> string list \<Rightarrow> string \<Rightarrow> error + string" where
  \<comment> \<open>the loop over the markers, appending the 500-character window after each one found\<close>
  "marker_sections p [] section = Inr section"
| "marker_sections p (marker # markers) section =
     (let text_lower = jd_text_lower p
      in if contains text_lower marker
         then bind_err (str_index text_lower marker) (\<lambda>start.
                let end_idx = min (start + 500) (length text_lower)
                in marker_sections p markers (section @ substring (jd_text p) start end_idx))
         else marker_sections p markers section)"

definition line_rest :: rx where
  \<comment> \<open>\<open>(.+?)(?=\n|$)\<close>\<close>
  "line_rest = Cat (Grp (Many Lazy 1 True [CChar newline])) (Ahead (Alt (Lit [newline]) Eol))"

definition bullet_mark :: rx where
  \<comment> \<open>the set of the bullet glyph, \<open>-\<close> and \<open>*\<close>\<close>
  "bullet_mark = Alt (Lit bullet_glyph) (One False [CChar CHR ''-'', CChar CHR ''*''])"

definition bullet_patterns :: "rx list" where
  "bullet_patterns =
     [seq [bullet_mark, ws0, line_rest],
      seq [Many Greedy 1 False [CDigit], Lit ''.'', ws0, line_rest]]"

definition extract_bullets :: "string \<Rightarrow> error + string list" where
  "extract_bullets t =
     bind_err (map_err (\<lambda>pattern. map_err (group1_strip t) (re_finditer MULTILINE pattern t))
                 bullet_patterns)
       (\<lambda>found. Inr (concat found))"

record required_preferred =
  required :: "string list"
  preferred :: "string list"

definition extract_required_vs_preferred :: "jd_parser \<Rightarrow> error + required_preferred" where
  "extract_required_vs_preferred p =
     bind_err (marker_sections p REQUIRED_MARKERS []) (\<lambda>required_section.
     bind_err (marker_sections p PREFERRED_MARKERS []) (\<lambda>preferred_section.
     bind_err (extract_bullets required_section) (\<lambda>req.
     bind_err (extract_bullets preferred_section) (\<lambda>pref.
       Inr \<lparr> required = req, preferred = pref \<rparr>))))"

definition skill_indicators :: "string list" where
  "skill_indicators =
     [''ability to'', ''experience with'', ''proficient in'', ''knowledge of'', ''skilled in'',
      ''expertise in'', ''strong skills'', ''demonstrated experience'', ''proven ability'']"

definition sentence_end :: rx where
  \<comment> \<open>\<open>[.!?]\s+\<close>\<close>
  "sentence_end = Cat (One False [CChar CHR ''.'', CChar CHR ''!'', CChar CHR ''?'']) ws1"

definition extract_verbatim_phrases :: "jd_parser \<Rightarrow> nat \<Rightarrow> nat \<Rightarrow> string list" where
  "extract_verbatim_phrases p min_length max_length =
     take 10 (filter (\<lambda>sent.
          sent \<noteq> [] \<and>
          (let word_count = length (py_split sent)
           in min_length \<le> word_count \<and> word_count \<le> max_length \<and>
              list_ex (\<lambda>indicator. contains (lower sent) indicator) skill_indicators))
        (map strip (re_split no_flags sentence_end (jd_text p))))"

definition value_markers :: "string list" where
  "value_markers =
     [''our values'', ''company values'', ''core values'', ''we believe'', ''our culture'', ''values we'']"

definition value_word :: rx where
  \<comment> \<open>\<open>\b([A-Z][a-z]+)\b\<close>\<close>
  "value_word = seq [WordB, Grp (Cat (One False [CRange CHR ''A'' CHR ''Z''])
     (Many Greedy 1 False [CRange CHR ''a'' CHR ''z''])), WordB]"

fun value_sections :: "jd_parser \<Rightarrow> string list \<Rightarrow> string list \<Rightarrow> error + string list" where
  "value_sections p [] vals = Inr vals"
| "value_sections p (marker # markers) vals =
     (let text_lower = jd_text_lower p
      in if contains text_lower marker
         then bind_err (str_index text_lower marker) (\<lambda>start.
                let section = substring (jd_text p) start (start + 500);
                    value_words = map (group1 section) (re_finditer no_flags value_word section)
                in value_sections p markers (vals @ take 5 value_words))
         else value_sections p markers vals)"

definition extract_company_values :: "jd_parser \<Rightarrow> error + string list" where
  "extract_company_values p =
     bind_err (value_sections p value_markers []) (\<lambda>vals. Inr (py_set vals))"

record jd_structure =
  st_sections :: "string list"
  responsibilities :: "string list"
  requirements :: "string list"

definition header_patterns :: "rx list" where
  "header_patterns =
     [seq [Bol, Grp (Cat (One False [CRange CHR ''A'' CHR ''Z''])
                      (Many Greedy 1 False [CRange CHR ''A'' CHR ''Z'', CSpace])),
           Opt (Lit '':''), Eol],
      seq [Bol, Grp (Cat (One False [CRange CHR ''A'' CHR ''Z''])
                      (Many Greedy 1 False [CRange CHR ''a'' CHR ''z'', CSpace])),
           Lit '':'', Eol],
      seq [Bol, Lit ''**'', Grp (Many Greedy 1 True [CChar CHR ''*'']), Lit ''**'']]"

definition bullet_line :: rx where
  \<comment> \<open>\<open>[\<bullet>\-\*]\s*(.+)\<close>\<close>
  "bullet_line = seq [bullet_mark, ws0, Grp (Many Greedy 1 True [CChar newline])]"

definition starts_upper :: rx where
  \<comment> \<open>\<open>^[A-Z]\<close>\<close>
  "starts_upper = Cat Bol (One False [CRange CHR ''A'' CHR ''Z''])"

fun collect_bullets :: "string list \<Rightarrow> error + string list" where
  \<comment> \<open>the loop over the lines after a header, up to its \<open>break\<close>\<close>
  "collect_bullets [] = Inr []"
| "collect_bullets (line # lines) =
     (case re_match no_flags bullet_line (strip line) of
        Some m \<Rightarrow>
          bind_err (group1_strip (strip line) m) (\<lambda>b.
          bind_err (collect_bullets lines) (\<lambda>bs. Inr (b # bs)))
      | None \<Rightarrow>
          if strip line \<noteq> [] \<and> re_match no_flags starts_upper (strip line) = None
          then Inr [] else collect_bullets lines)"

definition header_step :: "string list \<Rightarrow> nat \<Rightarrow> rx \<Rightarrow> jd_structure \<Rightarrow> error + jd_structure" where
  \<comment> \<open>one header pattern tried on line \<open>i\<close>\<close>
  "header_step lines i pattern st =
     (let line_stripped = strip (lines ! i)
      in case re_match no_flags pattern line_stripped of
           None \<Rightarrow> Inr st
         | Some m \<Rightarrow>
             bind_err (group1_strip line_stripped m) (\<lambda>header.
               let st1 = st\<lparr>st_sections := st_sections st @ [header]\<rparr>;
                   header_lower = lower header;
                   following = take (min (i + 20) (length lines) - (i + 1)) (drop (i + 1) lines)
               in if contains header_lower ''responsibilit'' \<or> contains header_lower ''what you''
                  then bind_err (collect_bullets following) (\<lambda>bullets.
                         Inr (st1\<lparr>responsibilities := responsibilities st1 @ bullets\<rparr>))
                  else if contains header_lower ''requirement'' \<or> contains header_lower ''about you'' \<or>
                          contains header_lower ''qualification''
                  then bind_err (collect_bullets following) (\<lambda>bullets.
                         Inr (st1\<lparr>requirements := requirements st1 @ bullets\<rparr>))
                  else Inr st1))"

fun fold_err :: "('a \<Rightarrow> 's \<Rightarrow> error + 's) \<Rightarrow> 'a list \<Rightarrow> 's \<Rightarrow> error + 's" where
  "fold_err f [] s = Inr s"
| "fold_err f (x # xs) s = bind_err (f x s) (fold_err f xs)"

definition analyze_structure :: "jd_parser \<Rightarrow> error + jd_structure" where
  "analyze_structure p =
     (let lines = split_on newline (jd_text p)
      in fold_err (\<lambda>i. fold_err (header_step lines i) header_patterns)
           [0 ..< length lines]
           \<lparr> st_sections = [], responsibilities = [], requirements = [] \<rparr>)"

definition stop_words :: "string list" where
  "stop_words = [''that'', ''this'', ''with'', ''from'', ''have'', ''will'', ''would'', ''could'', ''should'']"

definition long_word :: rx where
  \<comment> \<open>\<open>\b[a-z]{4,}\b\<close>\<close>
  "long_word = seq [WordB, Many Greedy 4 False [CRange CHR ''a'' CHR ''z''], WordB]"

definition most_common :: "nat \<Rightarrow> string list \<Rightarrow> (string \<times> nat) list" where
  \<comment> \<open>\<open>Counter(words).most_common(n)\<close>: by count, ties in order of first occurrence\<close>
  "most_common n ws =
     take n (sort_key (\<lambda>(w, c). - int c) (map (\<lambda>w. (w, count_list ws w)) (py_set ws)))"

definition calculate_keyword_density :: "jd_parser \<Rightarrow> (string \<times> nat) list" where
  "calculate_keyword_density p =
     (let spacy = (case nlp_doc p of None \<Rightarrow> [] | Some toks \<Rightarrow> toks);
          ws = (if spacy \<noteq> []
                then map (\<lambda>tok. lower (tok_text tok))
                       (filter (\<lambda>tok. \<not> is_stop tok \<and> tok_is_alpha tok \<and> length (tok_text tok) > 3) spacy)
                else filter (\<lambda>w. w \<notin> set stop_words)
                       (map (group0 (jd_text_lower p)) (re_finditer no_flags long_word (jd_text_lower p))))
      in most_common 20 ws)"

definition EXPERIENCE_PATTERN :: rx where
  \<comment> \<open>\<open>(\d+)\+?\s*(?:years?|yrs?)\s*(?:of\s*)?(?:experience|exp)?\<close>\<close>
  "EXPERIENCE_PATTERN =
     seq [Grp (Many Greedy 1 False [CDigit]), Opt (Lit ''+''), ws0,
          Alt (Cat (Lit ''year'') (Opt (Lit ''s''))) (Cat (Lit ''yr'') (Opt (Lit ''s''))), ws0,
          Opt (Cat (Lit ''of'') ws0), Opt (Alt (Lit ''experience'') (Lit ''exp''))]"

definition domain_tail :: rx where
  \<comment> \<open>\<open>\s+in\s+([A-Z][a-z\s]+)\<close>\<close>
  "domain_tail = seq [ws1, Lit ''in'', ws1,
     Grp (Cat (One False [CRange CHR ''A'' CHR ''Z''])
              (Many Greedy 1 False [CRange CHR ''a'' CHR ''z'', CSpace]))]"

definition domain_patterns :: "rx list" where
  "domain_patterns = [Cat (Lit ''experience'') domain_tail, Cat (Lit ''background'') domain_tail]"

definition extract_experience_requirements :: "jd_parser \<Rightarrow> string list" where
  "extract_experience_requirements p =
     py_set (map (group0 (jd_text p)) (re_finditer IGNORECASE EXPERIENCE_PATTERN (jd_text p)) @
             concat (map (\<lambda>pattern. map (group0 (jd_text p)) (re_finditer IGNORECASE pattern (jd_text p)))
                       domain_patterns))"

record jd_analysis =
  job_title :: string
  technical_skills :: "string list"
  required_skills :: "string list"
  preferred_skills :: "string list"
  tools_technologies :: "string list"
  verbatim_phrases :: "string list"
  company_values :: "string list"
  a_structure :: jd_structure
  keyword_density :: "(string \<times> nat) list"
  experience_requirements :: "string list"

definition extract_all :: "jd_parser \<Rightarrow> error + jd_analysis" where
  "extract_all p =
     bind_err (extract_required_vs_preferred p) (\<lambda>required_preferred.
     bind_err (extract_job_title p) (\<lambda>title.
     bind_err (extract_company_values p) (\<lambda>vals.
     bind_err (analyze_structure p) (\<lambda>st.
       Inr \<lparr> job_title = title,
             technical_skills = extract_technical_skills p,
             required_skills = required required_preferred,
             preferred_skills = preferred required_preferred,
             tools_technologies = extract_technical_skills p,
             verbatim_phrases = extract_verbatim_phrases p 10 30,
             company_values = vals,
             a_structure = st,
             keyword_density = calculate_keyword_density p,
             experience_requirements = extract_experience_requirements p \<rparr>))))"

subsection \<open>Notions used in the statements about the parser\<close>

fun captures :: "rx \<Rightarrow> bool" where
  \<comment> \<open>the capturing group lies on every path through the pattern\<close>
  "captures (Grp r) = True"
| "captures (Cat r1 r2) = (captures r1 \<or> captures r2)"
| "captures (Alt r1 r2) = (captures r1 \<and> captures r2)"
| "captures r = False"

definition empty_analysis :: jd_analysis where
  "empty_analysis =
     \<lparr> job_title = ''Unknown Title'', technical_skills = [], required_skills = [],
       preferred_skills = [], tools_technologies = [], verbatim_phrases = [], company_values = [],
       a_structure = \<lparr> st_sections = [], responsibilities = [], requirements = [] \<rparr>,
       keyword_density = [], experience_requirements = [] \<rparr>"



section \<open>Properties of the document compatibility checker\<close>

lemma check_file_format_eq:
  "check_file_format c =
     (- total_deduction (file_format_issues c), c\<lparr>issues := issues c @ file_format_issues c\<rparr>)"
  by (simp add: check_file_format_def file_format_issues_def total_deduction_def Let_def)

lemma check_layout_eq:
  "check_layout c =
     (case doc c of None \<Rightarrow> (0, c)
      | Some d \<Rightarrow> (- total_deduction (layout_issues d), c\<lparr>issues := issues c @ layout_issues d\<rparr>))"
  by (simp add: check_layout_def layout_issues_def total_deduction_def Let_def split: option.splits)

lemma check_fonts_eq:
  "check_fonts c =
     (case doc c of None \<Rightarrow> (0, c)
      | Some d \<Rightarrow> (- total_deduction (font_name_issues (crules c) d @ font_size_issues (crules c) d),
           c\<lparr>issues := issues c @ font_name_issues (crules c) d @ font_size_issues (crules c) d\<rparr>))"
  by (simp add: check_fonts_def font_name_issues_def font_size_issues_def rules_min_def rules_max_def
      total_deduction_def Let_def split: option.splits)

lemma headers_footers_loop_eq:
  "headers_footers_loop ss ded iss =
     (ded + total_deduction (concat (map section_issues ss)), iss @ concat (map section_issues ss))"
  by (induction ss arbitrary: ded iss)
     (simp_all add: section_issues_def total_deduction_def header_issue_def footer_issue_def Let_def)

lemma check_headers_footers_eq:
  "check_headers_footers c =
     (case doc c of None \<Rightarrow> (0, c)
      | Some d \<Rightarrow> (- total_deduction (concat (map section_issues (sections d))),
           c\<lparr>issues := issues c @ concat (map section_issues (sections d))\<rparr>))"
  by (simp add: check_headers_footers_def headers_footers_loop_eq split: option.splits)

lemma check_graphics_eq:
  "check_graphics c =
     (case doc c of None \<Rightarrow> (0, c)
      | Some d \<Rightarrow> (- total_deduction (graphics_issues d), c\<lparr>issues := issues c @ graphics_issues d\<rparr>))"
  by (simp add: check_graphics_def graphics_issues_def total_deduction_def split: option.splits)

lemma check_special_characters_eq:
  "check_special_characters c =
     (case doc c of None \<Rightarrow> (0, c)
      | Some d \<Rightarrow> (- total_deduction (special_issues d), c\<lparr>issues := issues c @ special_issues d\<rparr>))"
  by (simp add: check_special_characters_def special_issues_def found_unusual_def total_deduction_def
      Let_def split: option.splits)

lemma total_deduction_append [simp]:
  "total_deduction (xs @ ys) = total_deduction xs + total_deduction ys"
  by (simp add: total_deduction_def)

lemma total_deduction_Nil [simp]: "total_deduction [] = 0"
  by (simp add: total_deduction_def)

lemma file_format_issues_score [simp]:
  "file_format_issues (c\<lparr>score := x\<rparr>) = file_format_issues c"
  by (simp add: file_format_issues_def)

lemma calculate_total_score_eq:
  "calculate_total_score c =
     (max 0 (100 - total_deduction (new_issues c)),
      c\<lparr>score := 100 - total_deduction (new_issues c), issues := issues c @ new_issues c\<rparr>)"
  by (cases "doc c")
     (simp_all add: calculate_total_score_def check_file_format_eq check_layout_eq check_fonts_eq
       check_headers_footers_eq check_graphics_eq check_special_characters_eq new_issues_def
       document_issues_def Let_def)

lemma startswith_iff: "startswith s p \<longleftrightarrow> (\<exists>post. s = p @ post)"
  by (induction s p rule: startswith.induct) auto

lemma contains_iff: "contains s sub \<longleftrightarrow> (\<exists>pre post. s = pre @ sub @ post)"
proof (induction s)
  case Nil
  then show ?case by simp
next
  case (Cons c s)
  show ?case
  proof
    assume "contains (c # s) sub"
    then consider "startswith (c # s) sub" | "contains s sub" by auto
    then show "\<exists>pre post. c # s = pre @ sub @ post"
    proof cases
      case 1
      then obtain post where "c # s = sub @ post" by (auto simp: startswith_iff)
      then have "c # s = [] @ sub @ post" by simp
      then show ?thesis by blast
    next
      case 2
      then obtain pre post where "s = pre @ sub @ post" using Cons.IH by blast
      then have "c # s = (c # pre) @ sub @ post" by simp
      then show ?thesis by blast
    qed
  next
    assume "\<exists>pre post. c # s = pre @ sub @ post"
    then obtain pre post where e: "c # s = pre @ sub @ post" by blast
    show "contains (c # s) sub"
    proof (cases pre)
      case Nil
      then have "startswith (c # s) sub" using e by (auto simp: startswith_iff)
      then show ?thesis by simp
    next
      case (Cons a pre')
      then have "s = pre' @ sub @ post" using e by simp
      then have "contains s sub" using Cons.IH by blast
      then show ?thesis by simp
    qed
  qed
qed

lemma startswith_sep: "nl \<notin> set b \<Longrightarrow> startswith (u @ nl # v) b = startswith u b"
proof (induction u arbitrary: b)
  case Nil
  then show ?case by (cases b) auto
next
  case (Cons c u)
  then show ?case by (cases b) auto
qed

lemma contains_sep: "nl \<notin> set b \<Longrightarrow> contains (u @ nl # v) b \<longleftrightarrow> contains u b \<or> contains v b"
proof (induction u)
  case Nil
  then show ?case by (cases b) auto
next
  case (Cons c u)
  have "startswith (c # u @ nl # v) b = startswith (c # u) b"
    using startswith_sep [OF Cons.prems, of "c # u" v] by simp
  then show ?case using Cons by auto
qed

lemma contains_join:
  "nl \<notin> set b \<Longrightarrow> b \<noteq> [] \<Longrightarrow> contains (join [nl] ts) b \<longleftrightarrow> (\<exists>t \<in> set ts. contains t b)"
proof (induction "[nl]" ts rule: join.induct)
  case 1
  then show ?case by simp
next
  case (2 x)
  then show ?case by simp
next
  case (3 x y ys)
  then show ?case using contains_sep [of nl b x "join [nl] (y # ys)"] by simp
qed

lemma contains_extend: "contains t b \<Longrightarrow> contains (pre @ t @ post) b"
proof -
  assume "contains t b"
  then obtain p q where "t = p @ b @ q" by (auto simp: contains_iff)
  then have "pre @ t @ post = (pre @ p) @ b @ (q @ post)" by simp
  then show ?thesis unfolding contains_iff by blast
qed

lemma concat_map_nonempty: "concat (map f xs) \<noteq> [] \<longleftrightarrow> (\<exists>x \<in> set xs. f x \<noteq> [])"
  by (induction xs) auto

lemma py_set_nonempty: "py_set xs \<noteq> [] \<longleftrightarrow> xs \<noteq> []"
proof -
  have "set (py_set xs) = set xs" by (simp add: py_set_def)
  then show ?thesis by (metis set_empty)
qed

lemma found_unusual_iff:
  "found_unusual d \<noteq> [] \<longleftrightarrow>
     (\<exists>b \<in> set unusual_bullets. \<exists>p \<in> set (paragraphs d). contains (p_text p) b)"
proof -
  have nl: "CHR 0x0A \<notin> set b \<and> b \<noteq> []" if "b \<in> set unusual_bullets" for b
    using that by (auto simp: unusual_bullets_def)
  have "contains (join [CHR 0x0A] (map p_text (paragraphs d))) b \<longleftrightarrow>
      (\<exists>p \<in> set (paragraphs d). contains (p_text p) b)" if "b \<in> set unusual_bullets" for b
    using nl [OF that] contains_join [of "CHR 0x0A" b "map p_text (paragraphs d)"] by simp
  then show ?thesis
    unfolding found_unusual_def filter_empty_conv by blast
qed

lemma multi_column_iff:
  "multi_column ss \<longleftrightarrow> (\<exists>s \<in> set ss. \<exists>n. columns s = ColumnsCount n \<and> 1 < n)"
  by (induction ss) (auto split: columns_attr.splits)

lemma non_standard_fonts_iff:
  "non_standard_fonts allowed rs \<noteq> [] \<longleftrightarrow>
     (\<exists>r \<in> set rs. \<exists>n. font_name r = Some n \<and> n \<noteq> [] \<and> n \<notin> set allowed)"
proof -
  have "(case font_name r of None \<Rightarrow> [] | Some n \<Rightarrow> if n \<noteq> [] \<and> n \<notin> set allowed then [n] else []) \<noteq> []
     \<longleftrightarrow> (\<exists>n. font_name r = Some n \<and> n \<noteq> [] \<and> n \<notin> set allowed)" for r
    by (cases "font_name r") simp_all
  then show ?thesis
    unfolding non_standard_fonts_def py_set_nonempty concat_map_nonempty by blast
qed

lemma invalid_sizes_iff:
  "invalid_sizes lo hi rs \<noteq> [] \<longleftrightarrow>
     (\<exists>r \<in> set rs. \<exists>hp. font_size r = Some hp \<and> hp \<noteq> 0 \<and> (int hp < 2 * lo \<or> int hp > 2 * hi))"
proof -
  have "(case font_size r of None \<Rightarrow> []
         | Some hp \<Rightarrow> if hp \<noteq> 0 \<and> (int hp < 2 * lo \<or> int hp > 2 * hi) then [hp] else []) \<noteq> []
     \<longleftrightarrow> (\<exists>hp. font_size r = Some hp \<and> hp \<noteq> 0 \<and> (int hp < 2 * lo \<or> int hp > 2 * hi))" for r
    by (cases "font_size r") simp_all
  then show ?thesis
    unfolding invalid_sizes_def concat_map_nonempty by blast
qed

lemma section_issues_nonneg: "0 \<le> total_deduction (section_issues s)"
  by (simp add: section_issues_def total_deduction_def header_issue_def footer_issue_def)

lemma total_deduction_concat:
  "total_deduction (concat (map f (xs @ [s] @ ys))) =
     total_deduction (concat (map f xs)) + total_deduction (f s) + total_deduction (concat (map f ys))"
  by simp

lemma has_content_append: "has_content hs \<Longrightarrow> has_content (hs @ [t])"
  by (auto simp: has_content_def)

lemma section_issues_header:
  "total_deduction (section_issues s)
     \<le> total_deduction (section_issues (s\<lparr>header_paragraphs := header_paragraphs s @ [t]\<rparr>))"
  by (simp add: section_issues_def total_deduction_def header_issue_def footer_issue_def
      has_content_append)

lemma section_issues_footer:
  "total_deduction (section_issues s)
     \<le> total_deduction (section_issues (s\<lparr>footer_paragraphs := footer_paragraphs s @ [t]\<rparr>))"
  by (simp add: section_issues_def total_deduction_def header_issue_def footer_issue_def
      has_content_append)

lemma section_issues_columns:
  "section_issues (s\<lparr>columns := k\<rparr>) = section_issues s"
  by (simp add: section_issues_def)

lemma set_all_runs: "set (all_runs d) = (\<Union>p \<in> set (paragraphs d). set (runs p))"
  by (simp add: all_runs_def)

lemma dominates_refl: "dominates rs d d"
  by (simp add: dominates_def)

lemma dominates_trans: "dominates rs d d' \<Longrightarrow> dominates rs d' d'' \<Longrightarrow> dominates rs d d''"
  unfolding dominates_def by auto

lemma dominates_tables: "dominates rs d (d\<lparr>tables := tables d + n\<rparr>)"
  by (simp add: dominates_def all_runs_def found_unusual_def)

lemma dominates_section:
  assumes "sections d = xs @ ys"
  shows "dominates rs d (d\<lparr>sections := xs @ [s] @ ys\<rparr>)"
  using assms section_issues_nonneg [of s]
  by (auto simp: dominates_def all_runs_def found_unusual_def multi_column_iff)

lemma dominates_columns:
  assumes "sections d = xs @ [s] @ ys" "1 < n"
  shows "dominates rs d (d\<lparr>sections := xs @ [s\<lparr>columns := ColumnsCount n\<rparr>] @ ys\<rparr>)"
  using assms
  by (auto simp: dominates_def all_runs_def found_unusual_def multi_column_iff section_issues_columns)

lemma dominates_header:
  assumes "sections d = xs @ [s] @ ys"
  shows "dominates rs d (d\<lparr>sections := xs @ [s\<lparr>header_paragraphs := header_paragraphs s @ [t]\<rparr>] @ ys\<rparr>)"
  using assms section_issues_header [of s t]
  by (auto simp: dominates_def all_runs_def found_unusual_def multi_column_iff)

lemma dominates_footer:
  assumes "sections d = xs @ [s] @ ys"
  shows "dominates rs d (d\<lparr>sections := xs @ [s\<lparr>footer_paragraphs := footer_paragraphs s @ [t]\<rparr>] @ ys\<rparr>)"
  using assms section_issues_footer [of s t]
  by (auto simp: dominates_def all_runs_def found_unusual_def multi_column_iff)

lemma run_le_refl [simp]: "run_le r r"
  by (simp add: run_le_def)

lemma run_le_self: "\<forall>r \<in> set xs. \<exists>r' \<in> set xs. run_le r r'"
  using run_le_refl by blast

lemma run_le_subset: "set xs \<subseteq> set ys \<Longrightarrow> \<forall>r \<in> set xs. \<exists>r' \<in> set ys. run_le r r'"
  using run_le_refl by blast

lemma dominates_paragraphs:
  assumes "\<forall>p \<in> set (paragraphs d). \<exists>p' \<in> set ps'.
             (\<forall>r \<in> set (runs p). \<exists>r' \<in> set (runs p'). run_le r r') \<and>
             (\<forall>b. contains (p_text p) b \<longrightarrow> contains (p_text p') b)"
  shows "dominates rs d (d\<lparr>paragraphs := ps'\<rparr>)"
proof -
  have r: "\<exists>r' \<in> set (all_runs (d\<lparr>paragraphs := ps'\<rparr>)). run_le r r'" if "r \<in> set (all_runs d)" for r
  proof -
    from that obtain p where p: "p \<in> set (paragraphs d)" "r \<in> set (runs p)"
      by (auto simp: set_all_runs)
    with assms obtain p' r' where "p' \<in> set ps'" "r' \<in> set (runs p')" "run_le r r'" by meson
    then show ?thesis by (auto simp: set_all_runs)
  qed
  have u: "found_unusual d \<noteq> [] \<longrightarrow> found_unusual (d\<lparr>paragraphs := ps'\<rparr>) \<noteq> []"
    unfolding found_unusual_iff using assms by (simp, meson)
  have n: "non_standard_fonts (fonts_allowed rs) (all_runs d) \<noteq> [] \<longrightarrow>
        non_standard_fonts (fonts_allowed rs) (all_runs (d\<lparr>paragraphs := ps'\<rparr>)) \<noteq> []"
  proof
    assume "non_standard_fonts (fonts_allowed rs) (all_runs d) \<noteq> []"
    then obtain r n where "r \<in> set (all_runs d)" "font_name r = Some n" "n \<noteq> []"
      "n \<notin> set (fonts_allowed rs)"
      unfolding non_standard_fonts_iff by blast
    moreover from this r obtain r' where "r' \<in> set (all_runs (d\<lparr>paragraphs := ps'\<rparr>))" "run_le r r'"
      by blast
    ultimately show "non_standard_fonts (fonts_allowed rs) (all_runs (d\<lparr>paragraphs := ps'\<rparr>)) \<noteq> []"
      unfolding non_standard_fonts_iff run_le_def by auto
  qed
  have i: "invalid_sizes (rules_min rs) (rules_max rs) (all_runs d) \<noteq> [] \<longrightarrow>
        invalid_sizes (rules_min rs) (rules_max rs) (all_runs (d\<lparr>paragraphs := ps'\<rparr>)) \<noteq> []"
  proof
    assume "invalid_sizes (rules_min rs) (rules_max rs) (all_runs d) \<noteq> []"
    then obtain r hp where "r \<in> set (all_runs d)" "font_size r = Some hp" "hp \<noteq> 0"
      "int hp < 2 * rules_min rs \<or> int hp > 2 * rules_max rs"
      unfolding invalid_sizes_iff by blast
    moreover from this r obtain r' where "r' \<in> set (all_runs (d\<lparr>paragraphs := ps'\<rparr>))" "run_le r r'"
      by blast
    ultimately show "invalid_sizes (rules_min rs) (rules_max rs) (all_runs (d\<lparr>paragraphs := ps'\<rparr>)) \<noteq> []"
      unfolding invalid_sizes_iff run_le_def by auto
  qed
  show ?thesis
    unfolding dominates_def using u n i by simp
qed

lemma dominates_paragraph:
  assumes "paragraphs d = ps @ qs"
  shows "dominates rs d (d\<lparr>paragraphs := ps @ [p] @ qs\<rparr>)"
proof (rule dominates_paragraphs, rule ballI)
  fix q assume "q \<in> set (paragraphs d)"
  then have "q \<in> set (ps @ [p] @ qs)" using assms by auto
  moreover have "\<forall>r \<in> set (runs q). \<exists>r' \<in> set (runs q). run_le r r'" by (rule run_le_self)
  ultimately show "\<exists>p' \<in> set (ps @ [p] @ qs).
     (\<forall>r \<in> set (runs q). \<exists>r' \<in> set (runs p'). run_le r r') \<and>
     (\<forall>b. contains (p_text q) b \<longrightarrow> contains (p_text p') b)"
    by blast
qed

lemma dominates_changed_paragraph:
  assumes "paragraphs d = ps @ [p] @ qs"
    and "\<forall>r \<in> set (runs p). \<exists>r' \<in> set (runs p'). run_le r r'"
    and "\<forall>b. contains (p_text p) b \<longrightarrow> contains (p_text p') b"
  shows "dominates rs d (d\<lparr>paragraphs := ps @ [p'] @ qs\<rparr>)"
proof (rule dominates_paragraphs, rule ballI)
  fix q assume "q \<in> set (paragraphs d)"
  then consider "q \<in> set ps \<union> set qs" | "q = p" using assms(1) by auto
  then show "\<exists>q' \<in> set (ps @ [p'] @ qs).
     (\<forall>r \<in> set (runs q). \<exists>r' \<in> set (runs q'). run_le r r') \<and>
     (\<forall>b. contains (p_text q) b \<longrightarrow> contains (p_text q') b)"
  proof cases
    case 1
    have "\<forall>r \<in> set (runs q). \<exists>r' \<in> set (runs q). run_le r r'" by (rule run_le_self)
    moreover have "q \<in> set (ps @ [p'] @ qs)" using 1 by auto
    ultimately show ?thesis by blast
  next
    case 2
    then show ?thesis using assms(2,3) by (intro bexI [of _ p']) simp_all
  qed
qed

lemma dominates_run:
  assumes "paragraphs d = ps @ [p] @ qs" "runs p = rs1 @ rs2"
  shows "dominates rs d (d\<lparr>paragraphs := ps @ [p\<lparr>runs := rs1 @ [r] @ rs2\<rparr>] @ qs\<rparr>)"
proof (rule dominates_changed_paragraph [OF assms(1)])
  show "\<forall>x \<in> set (runs p). \<exists>r' \<in> set (runs (p\<lparr>runs := rs1 @ [r] @ rs2\<rparr>)). run_le x r'"
    using assms(2) by (intro run_le_subset) auto
  show "\<forall>b. contains (p_text p) b \<longrightarrow> contains (p_text (p\<lparr>runs := rs1 @ [r] @ rs2\<rparr>)) b"
    by simp
qed

lemma dominates_changed_run:
  assumes "paragraphs d = ps @ [p] @ qs" "runs p = rs1 @ [r] @ rs2" "run_le r r'"
  shows "dominates rs d (d\<lparr>paragraphs := ps @ [p\<lparr>runs := rs1 @ [r'] @ rs2\<rparr>] @ qs\<rparr>)"
proof (rule dominates_changed_paragraph [OF assms(1)])
  show "\<forall>x \<in> set (runs p). \<exists>y \<in> set (runs (p\<lparr>runs := rs1 @ [r'] @ rs2\<rparr>)). run_le x y"
  proof
    fix x assume "x \<in> set (runs p)"
    then consider "x \<in> set rs1 \<union> set rs2" | "x = r" using assms(2) by auto
    then show "\<exists>y \<in> set (runs (p\<lparr>runs := rs1 @ [r'] @ rs2\<rparr>)). run_le x y"
    proof cases
      case 1
      then show ?thesis by (intro bexI [of _ x]) auto
    next
      case 2
      then show ?thesis using assms(3) by (intro bexI [of _ r']) auto
    qed
  qed
  show "\<forall>b. contains (p_text p) b \<longrightarrow> contains (p_text (p\<lparr>runs := rs1 @ [r'] @ rs2\<rparr>)) b"
    by simp
qed

lemma dominates_font:
  assumes "paragraphs d = ps @ [p] @ qs" "runs p = rs1 @ [r] @ rs2" "font_name r = None"
  shows "dominates rs d (d\<lparr>paragraphs := ps @ [p\<lparr>runs := rs1 @ [r\<lparr>font_name := Some n\<rparr>] @ rs2\<rparr>] @ qs\<rparr>)"
  using assms(3) by (intro dominates_changed_run [OF assms(1,2)]) (simp add: run_le_def)

lemma dominates_size:
  assumes "paragraphs d = ps @ [p] @ qs" "runs p = rs1 @ [r] @ rs2" "font_size r = None"
  shows "dominates rs d (d\<lparr>paragraphs := ps @ [p\<lparr>runs := rs1 @ [r\<lparr>font_size := Some hp\<rparr>] @ rs2\<rparr>] @ qs\<rparr>)"
  using assms(3) by (intro dominates_changed_run [OF assms(1,2)]) (simp add: run_le_def)

lemma dominates_text:
  assumes "paragraphs d = ps @ [p] @ qs"
  shows "dominates rs d (d\<lparr>paragraphs := ps @ [p\<lparr>p_text := pre @ p_text p @ post\<rparr>] @ qs\<rparr>)"
proof (rule dominates_changed_paragraph [OF assms])
  show "\<forall>x \<in> set (runs p). \<exists>r' \<in> set (runs (p\<lparr>p_text := pre @ p_text p @ post\<rparr>)). run_le x r'"
    by (intro run_le_subset) simp
  show "\<forall>b. contains (p_text p) b \<longrightarrow> contains (p_text (p\<lparr>p_text := pre @ p_text p @ post\<rparr>)) b"
    by (simp add: contains_extend)
qed

lemma dominates_rel:
  assumes "rels d = xs @ ys"
  shows "dominates rs d (d\<lparr>rels := xs @ [r] @ ys\<rparr>)"
  using assms by (auto simp: dominates_def all_runs_def found_unusual_def has_graphics_def)

lemma adds_violations_dominates: "adds_violations d d' \<Longrightarrow> dominates rs d d'"
proof (induction rule: adds_violations.induct)
  case (same d)
  show ?case by (rule dominates_refl)
next
  case (more d d' d'')
  then show ?case by (blast intro: dominates_trans)
next
  case (add_tables d n)
  show ?case by (rule dominates_tables)
next
  case (add_section d xs ys s)
  then show ?case by (rule dominates_section)
next
  case (add_columns d xs s ys n)
  then show ?case by (rule dominates_columns)
next
  case (add_header d xs s ys t)
  then show ?case by (rule dominates_header)
next
  case (add_footer d xs s ys t)
  then show ?case by (rule dominates_footer)
next
  case (add_paragraph d ps qs p)
  then show ?case by (rule dominates_paragraph)
next
  case (add_run d ps p qs rs1 rs2 r)
  then show ?case by (rule dominates_run)
next
  case (set_font d ps p qs rs1 r rs2 n)
  then show ?case by (rule dominates_font)
next
  case (set_size d ps p qs rs1 r rs2 hp)
  then show ?case by (rule dominates_size)
next
  case (add_text d ps p qs pre post)
  then show ?case by (rule dominates_text)
next
  case (add_rel d xs ys r)
  then show ?case by (rule dominates_rel)
qed

lemma document_deduction:
  "total_deduction (document_issues rs d) =
     (if 0 < tables d then 15 else 0) + (if multi_column (sections d) then 10 else 0) +
     (if non_standard_fonts (fonts_allowed rs) (all_runs d) \<noteq> [] then 10 else 0) +
     (if invalid_sizes (rules_min rs) (rules_max rs) (all_runs d) \<noteq> [] then 5 else 0) +
     total_deduction (concat (map section_issues (sections d))) +
     (if has_graphics (rels d) then 20 else 0) + (if found_unusual d \<noteq> [] then 5 else 0)"
  by (simp add: document_issues_def layout_issues_def font_name_issues_def font_size_issues_def
      graphics_issues_def special_issues_def Let_def total_deduction_def)

lemma dominates_deduction:
  "dominates rs d d' \<Longrightarrow> total_deduction (document_issues rs d) \<le> total_deduction (document_issues rs d')"
  unfolding document_deduction dominates_def
  by (intro add_mono) auto

lemma new_issues_nonneg: "0 \<le> total_deduction (new_issues c)"
proof -
  have "0 \<le> total_deduction (concat (map section_issues ss))" for ss
    by (induction ss) (simp_all add: section_issues_nonneg)
  then have "0 \<le> total_deduction (document_issues rs d)" for rs d
    unfolding document_deduction by (intro add_nonneg_nonneg) auto
  moreover have "0 \<le> total_deduction (file_format_issues c)"
    by (simp add: file_format_issues_def total_deduction_def Let_def)
  ultimately show ?thesis
    by (simp add: new_issues_def split: option.splits)
qed

section \<open>The claims about the document compatibility checker\<close>

text \<open>
  Claim C1, as amended.  \<open>calculate_total_score\<close> returns a value between 0 and 100 for
  every checker state.  A file that was not loaded (any extension other than \<open>.docx\<close>)
  scores 100 when its extension is allowed and 70 otherwise, whatever it contains.  With the
  path and the rules fixed, the score does not increase when violations are added to the
  loaded document: more tables, a further section, a multi-column section, header or footer
  text, a further paragraph or run, a font name or size on a run that had none, more text in
  a paragraph, a further relationship.
\<close>

theorem calculate_total_score_bounded_monotone:
  "0 \<le> fst (calculate_total_score c) \<and> fst (calculate_total_score c) \<le> 100 \<and>
   (doc c = None \<longrightarrow> fst (calculate_total_score c) =
      (if lower (snd (splitext (cv_path c))) \<in> set (file_formats_allowed (crules c)) then 100 else 70)) \<and>
   (adds_violations d d' \<longrightarrow>
      fst (calculate_total_score (c\<lparr>doc := Some d'\<rparr>)) \<le> fst (calculate_total_score (c\<lparr>doc := Some d\<rparr>)))"
proof (intro conjI impI)
  show "0 \<le> fst (calculate_total_score c)" by (simp add: calculate_total_score_eq)
  show "fst (calculate_total_score c) \<le> 100"
    using new_issues_nonneg [of c] by (simp add: calculate_total_score_eq)
  show "fst (calculate_total_score c) =
      (if lower (snd (splitext (cv_path c))) \<in> set (file_formats_allowed (crules c)) then 100 else 70)"
    if "doc c = None"
    using that
    by (simp add: calculate_total_score_eq new_issues_def file_format_issues_def Let_def
        total_deduction_def)
  show "fst (calculate_total_score (c\<lparr>doc := Some d'\<rparr>)) \<le> fst (calculate_total_score (c\<lparr>doc := Some d\<rparr>))"
    if "adds_violations d d'"
  proof -
    have "total_deduction (document_issues (crules c) d) \<le> total_deduction (document_issues (crules c) d')"
      using that by (intro dominates_deduction adds_violations_dominates)
    moreover have "file_format_issues (c\<lparr>doc := x\<rparr>) = file_format_issues c" for x
      by (simp add: file_format_issues_def)
    ultimately show ?thesis
      by (simp add: calculate_total_score_eq new_issues_def)
  qed
qed

theorem calculate_total_score_bounded_monotone_witness:
  "adds_violations clean_document (clean_document\<lparr>tables := tables clean_document + 1\<rparr>) \<and>
   fst (calculate_total_score ((sample_checker ''cv.docx'' default_rules None)
          \<lparr>doc := Some (clean_document\<lparr>tables := tables clean_document + 1\<rparr>)\<rparr>))
     \<le> fst (calculate_total_score ((sample_checker ''cv.docx'' default_rules None)
          \<lparr>doc := Some clean_document\<rparr>)) \<and>
   0 \<le> fst (calculate_total_score (sample_checker ''cv.docx'' default_rules None)) \<and>
   fst (calculate_total_score (sample_checker ''cv.docx'' default_rules None)) \<le> 100"
  using calculate_total_score_bounded_monotone
          [of "sample_checker ''cv.docx'' default_rules None" clean_document
              "clean_document\<lparr>tables := tables clean_document + 1\<rparr>"]
        add_tables [of clean_document 1]
  by blast

theorem calculate_total_score_extension_counterexample:
  "lower (snd (splitext ''cv.docx'')) \<in> set (file_formats_allowed default_rules) \<and>
   lower (snd (splitext ''cv.pdf'')) \<notin> set (file_formats_allowed default_rules) \<and>
   score_of_file ''cv.docx'' default_rules (Inr busy_document) = Inr 50 \<and>
   score_of_file ''cv.pdf'' default_rules (Inr busy_document) = Inr 70"
  by code_simp






lemma appended_eq:
  "appended check_file_format c = file_format_issues c"
  "appended check_layout c = (case doc c of None \<Rightarrow> [] | Some d \<Rightarrow> layout_issues d)"
  "appended check_fonts c =
     (case doc c of None \<Rightarrow> [] | Some d \<Rightarrow> font_name_issues (crules c) d @ font_size_issues (crules c) d)"
  "appended check_headers_footers c =
     (case doc c of None \<Rightarrow> [] | Some d \<Rightarrow> concat (map section_issues (sections d)))"
  "appended check_graphics c = (case doc c of None \<Rightarrow> [] | Some d \<Rightarrow> graphics_issues d)"
  "appended check_special_characters c = (case doc c of None \<Rightarrow> [] | Some d \<Rightarrow> special_issues d)"
  by (simp_all add: appended_def check_file_format_eq check_layout_eq check_fonts_eq
      check_headers_footers_eq check_graphics_eq check_special_characters_eq split: option.splits)

text \<open>
  Claim C5, as amended.  Every issue a check appends carries the severity fixed for its kind:
  file-format, layout (tables, multi-column) and graphics issues are HIGH, header and footer
  issues are MEDIUM, special-character issues are LOW; of the two font issues the
  non-standard-font one is MEDIUM and the font-size one is LOW.
\<close>

theorem check_severity_by_type:
  "(\<forall>i \<in> set (appended check_file_format c). severity i = HIGH) \<and>
   (\<forall>i \<in> set (appended check_layout c). severity i = HIGH) \<and>
   (\<forall>i \<in> set (appended check_graphics c). severity i = HIGH) \<and>
   (\<forall>i \<in> set (appended check_headers_footers c). severity i = MEDIUM) \<and>
   (\<forall>i \<in> set (appended check_special_characters c). severity i = LOW) \<and>
   (\<forall>i \<in> set (appended check_fonts c).
      (startswith (issue_text i) ''Non-standard fonts detected'' \<and> severity i = MEDIUM) \<or>
      (startswith (issue_text i) ''Font sizes outside recommended range'' \<and> severity i = LOW))"
proof (intro conjI)
  show "\<forall>i \<in> set (appended check_file_format c). severity i = HIGH"
    by (simp add: appended_eq file_format_issues_def Let_def)
  show "\<forall>i \<in> set (appended check_layout c). severity i = HIGH"
    by (cases "doc c") (auto simp: appended_eq layout_issues_def split: if_splits)
  show "\<forall>i \<in> set (appended check_graphics c). severity i = HIGH"
    by (cases "doc c") (auto simp: appended_eq graphics_issues_def split: if_splits)
  show "\<forall>i \<in> set (appended check_headers_footers c). severity i = MEDIUM"
    by (cases "doc c")
       (auto simp: appended_eq section_issues_def header_issue_def footer_issue_def split: if_splits)
  show "\<forall>i \<in> set (appended check_special_characters c). severity i = LOW"
    by (cases "doc c") (auto simp: appended_eq special_issues_def split: if_splits)
  show "\<forall>i \<in> set (appended check_fonts c).
      (startswith (issue_text i) ''Non-standard fonts detected'' \<and> severity i = MEDIUM) \<or>
      (startswith (issue_text i) ''Font sizes outside recommended range'' \<and> severity i = LOW)"
    by (cases "doc c")
       (auto simp: appended_eq font_name_issues_def font_size_issues_def Let_def split: if_splits)
qed

theorem check_severity_by_type_witness:
  "appended check_layout (sample_checker ''cv.docx'' default_rules (Some busy_document)) \<noteq> [] \<and>
   list_all (\<lambda>i. severity i = HIGH)
     (appended check_layout (sample_checker ''cv.docx'' default_rules (Some busy_document))) \<and>
   appended check_fonts (sample_checker ''cv.docx'' default_rules (Some busy_document)) \<noteq> [] \<and>
   list_all (\<lambda>i. (startswith (issue_text i) ''Non-standard fonts detected'' \<and> severity i = MEDIUM) \<or>
                  (startswith (issue_text i) ''Font sizes outside recommended range'' \<and> severity i = LOW))
     (appended check_fonts (sample_checker ''cv.docx'' default_rules (Some busy_document)))"
proof -
  have "appended check_layout (sample_checker ''cv.docx'' default_rules (Some busy_document)) \<noteq> []"
    by code_simp
  moreover have "appended check_fonts (sample_checker ''cv.docx'' default_rules (Some busy_document)) \<noteq> []"
    by code_simp
  ultimately show ?thesis
    using check_severity_by_type [of "sample_checker ''cv.docx'' default_rules (Some busy_document)"]
    unfolding list_all_iff by blast
qed

theorem check_fonts_size_severity_counterexample:
  "appended check_fonts (sample_checker ''cv.docx'' default_rules (Some busy_document)) =
     [\<lparr> severity = MEDIUM, issue_text = ''Non-standard fonts detected: Papyrus'', deduction = 10 \<rparr>,
      \<lparr> severity = LOW,
        issue_text = ''Font sizes outside recommended range (10-12pt): 14.0'', deduction = 5 \<rparr>]"
  by code_simp

text \<open>
  Claim C6, at a document with one table, one image, a non-standard font and a 14pt run.
  The first \<open>generate_report\<close> lists four issues; the second, on the same checker, lists each
  of them twice, as \<open>calculate_total_score\<close> resets the score but not the issue list.
\<close>

theorem generate_report_rerun_accumulates:
  "map deduction (r_issues (fst (generate_report
      (sample_checker ''cv.docx'' default_rules (Some busy_document))))) = [20, 15, 10, 5] \<and>
   map deduction (r_issues (fst (generate_report (snd (generate_report
      (sample_checker ''cv.docx'' default_rules (Some busy_document))))))) = [20, 20, 15, 15, 10, 10, 5, 5] \<and>
   r_score (fst (generate_report (snd (generate_report
      (sample_checker ''cv.docx'' default_rules (Some busy_document)))))) = 50"
  by code_simp

lemma generate_report_issues:
  "issues (snd (generate_report c)) = issues c @ new_issues c"
  by (simp add: generate_report_def calculate_total_score_eq)


section \<open>Properties of the keyword matcher\<close>

lemma ord_char_of: "n < 256 \<Longrightarrow> ord (char_of n) = n"
  by (simp add: ord_def)

lemma ord_less: "ord c < 256"
proof -
  have "ord c mod 256 = ord c" unfolding ord_def by (rule of_char_mod_256)
  then show ?thesis by (metis mod_less_divisor zero_less_numeral)
qed

lemma ord_lower_char: "ord (lower_char c) = (if is_upper c then ord c + 32 else ord c)"
  by (simp add: lower_char_def is_upper_def ord_char_of)

lemma is_word_lower_char [simp]: "is_word (lower_char c) = is_word c"
  unfolding is_word_def is_alpha_def is_upper_def is_lower_def is_digit_def ord_lower_char
  by auto

lemma lower_char_idem [simp]: "lower_char (lower_char c) = lower_char c"
proof -
  have "\<not> is_upper (lower_char c)"
    unfolding is_upper_def ord_lower_char by (auto simp: is_upper_def)
  then show ?thesis by (simp add: lower_char_def)
qed

lemma lower_idem [simp]: "lower (lower s) = lower s"
  by (simp add: lower_def)

lemma length_lower [simp]: "length (lower s) = length s"
  by (simp add: lower_def)

lemma nth_lower: "i < length s \<Longrightarrow> lower s ! i = lower_char (s ! i)"
  by (simp add: lower_def)

lemma take_lower: "take n (lower s) = lower (take n s)"
  by (simp add: lower_def take_map)

lemma drop_lower: "drop n (lower s) = lower (drop n s)"
  by (simp add: lower_def drop_map)

lemma word_before_lower [simp]: "word_before (lower t) p = word_before t p"
  by (auto simp: word_before_def nth_lower)

lemma word_after_lower [simp]: "word_after (lower t) p = word_after t p"
  by (auto simp: word_after_def nth_lower)

lemma boundary_lower [simp]: "boundary (lower t) p = boundary t p"
  by (simp add: boundary_def)

lemma occurs_at_lower [simp]: "occurs_at (lower t) kw i = occurs_at t kw i"
  by (simp add: occurs_at_def take_lower drop_lower)












section \<open>The claims about the keyword matcher\<close>




lemma whole_word_at_lower [simp]: "whole_word_at (lower t) kw i = whole_word_at t kw i"
  by (simp add: whole_word_at_def)

lemma distinct_py_set [simp]: "distinct (py_set xs)"
  by (simp add: py_set_def)

lemma matched_count: "matched_keywords (calculate_match_percentage km) = length (matched_set km)"
  by (simp add: calculate_match_percentage_def Let_def)















section \<open>Properties of the job description parser\<close>

lemma bind_err_Inr [simp]: "bind_err (Inr v) f = f v"
  by (simp add: bind_err_def)

lemma bind_err_Inl [simp]: "bind_err (Inl e) f = Inl e"
  by (simp add: bind_err_def)

lemma bind_err_total:
  assumes "\<exists>v. x = Inr v" "\<And>v. \<exists>w. f v = Inr w"
  shows "\<exists>w. bind_err x f = Inr w"
  using assms by auto

lemma rx_match_keeps:
  "m \<in> set (rx_match f t r (p, g)) \<Longrightarrow> g \<noteq> None \<Longrightarrow> snd m \<noteq> None"
proof (induction r arbitrary: p g m)
  case (Cat r1 r2)
  from Cat.prems(1) obtain m1 where m1: "m1 \<in> set (rx_match f t r1 (p, g))"
    and m: "m \<in> set (rx_match f t r2 m1)" by auto
  have "snd m1 \<noteq> None" using Cat.IH(1) [OF m1 Cat.prems(2)] .
  then show ?case using Cat.IH(2) [of m "fst m1" "snd m1"] m by simp
next
  case (Many gr n neg cs)
  then show ?case by (auto simp: Let_def split: greed.splits)
qed (auto split: if_splits)

lemma rx_match_captures:
  "captures r \<Longrightarrow> m \<in> set (rx_match f t r (p, g)) \<Longrightarrow> snd m \<noteq> None"
proof (induction r arbitrary: p g m)
  case (Cat r1 r2)
  from Cat.prems(2) obtain m1 where m1: "m1 \<in> set (rx_match f t r1 (p, g))"
    and m: "m \<in> set (rx_match f t r2 m1)" by auto
  show ?case
  proof (cases "captures r1")
    case True
    have "snd m1 \<noteq> None" using Cat.IH(1) [OF True m1] .
    then show ?thesis using rx_match_keeps [of m f t r2 "fst m1" "snd m1"] m by simp
  next
    case False
    then have "captures r2" using Cat.prems(1) by simp
    then show ?thesis using Cat.IH(2) [of m "fst m1" "snd m1"] m by simp
  qed
qed auto

lemma match_at_captures:
  "captures r \<Longrightarrow> match_at f r t p = Some m \<Longrightarrow> m_group1 m \<noteq> None"
proof -
  assume c: "captures r" and a: "match_at f r t p = Some m"
  then obtain x xs where x: "rx_match f t r (p, None) = x # xs" and m: "m_group1 m = snd x"
    by (auto simp: match_at_def split: list.splits)
  have "x \<in> set (rx_match f t r (p, None))" using x by simp
  then show ?thesis using rx_match_captures [OF c] m by simp
qed

lemma first_match_Some:
  "first_match f r t ps = Some m \<Longrightarrow> \<exists>p \<in> set ps. match_at f r t p = Some m"
  by (induction ps) (auto split: option.splits)

lemma re_search_captures:
  "captures r \<Longrightarrow> re_search f r t = Some m \<Longrightarrow> m_group1 m \<noteq> None"
  unfolding re_search_def using first_match_Some match_at_captures by blast

lemma re_match_captures:
  "captures r \<Longrightarrow> re_match f r t = Some m \<Longrightarrow> m_group1 m \<noteq> None"
  unfolding re_match_def by (rule match_at_captures)

lemma scan_matches_captures:
  "captures r \<Longrightarrow> m \<in> set (scan_matches f r t nxt ps) \<Longrightarrow> m_group1 m \<noteq> None"
proof (induction ps arbitrary: nxt)
  case Nil
  then show ?case by simp
next
  case (Cons p ps)
  then show ?case
    by (auto split: if_splits option.splits dest: match_at_captures)
qed

lemma re_finditer_captures:
  "captures r \<Longrightarrow> m \<in> set (re_finditer f r t) \<Longrightarrow> m_group1 m \<noteq> None"
  unfolding re_finditer_def by (rule scan_matches_captures)

lemma group1_strip_total:
  "m_group1 m \<noteq> None \<Longrightarrow> group1_strip t m = Inr (strip (group1 t m))"
  by (auto simp: group1_strip_def group1_def)

lemma map_err_total:
  "(\<And>x. x \<in> set xs \<Longrightarrow> \<exists>y. f x = Inr y) \<Longrightarrow> \<exists>ys. map_err f xs = Inr ys"
proof (induction xs)
  case Nil
  then show ?case by simp
next
  case (Cons x xs)
  then obtain y ys where "f x = Inr y" "map_err f xs = Inr ys" by (meson list.set_intros)
  then show ?case by simp
qed

lemma fold_err_total:
  "(\<And>x s. x \<in> set xs \<Longrightarrow> \<exists>s'. f x s = Inr s') \<Longrightarrow> \<exists>s'. fold_err f xs s = Inr s'"
proof (induction xs arbitrary: s)
  case Nil
  then show ?case by simp
next
  case (Cons x xs)
  then obtain s1 where "f x s = Inr s1" by (meson list.set_intros)
  moreover have "\<exists>s'. fold_err f xs s1 = Inr s'" using Cons by (meson list.set_intros)
  ultimately show ?case by simp
qed

lemma str_find_contains: "contains s sub \<Longrightarrow> str_find s sub \<noteq> None"
  by (induction s) auto

lemma str_index_total: "contains s sub \<Longrightarrow> \<exists>i. str_index s sub = Inr i"
  using str_find_contains [of s sub] by (auto simp: str_index_def)

lemma captures_title_patterns: "r \<in> set title_patterns \<Longrightarrow> captures r"
  by (auto simp: title_patterns_def)

lemma try_patterns_total:
  "(\<And>r. r \<in> set ps \<Longrightarrow> captures r) \<Longrightarrow> \<exists>v. try_patterns t ps = Inr v"
proof (induction ps)
  case Nil
  then show ?case by simp
next
  case (Cons r ps)
  have ih: "\<exists>v. try_patterns t ps = Inr v" using Cons by simp
  show ?case
  proof (cases "re_search MULTILINE_IGNORECASE r t")
    case None
    then show ?thesis using ih by simp
  next
    case (Some m)
    have "m_group1 m \<noteq> None" using re_search_captures [OF _ Some] Cons.prems by simp
    then show ?thesis using Some ih by (auto simp: group1_strip_total Let_def)
  qed
qed

lemma extract_job_title_total: "\<exists>v. extract_job_title p = Inr v"
proof -
  obtain r where "try_patterns (jd_text p) title_patterns = Inr r"
    using try_patterns_total [of title_patterns] captures_title_patterns by blast
  then show ?thesis
    by (auto simp: extract_job_title_def Let_def split: option.splits)
qed

lemma marker_sections_total: "\<exists>v. marker_sections p ms acc = Inr v"
proof (induction ms arbitrary: acc)
  case Nil
  then show ?case by simp
next
  case (Cons marker ms)
  show ?case
  proof (cases "contains (jd_text_lower p) marker")
    case True
    then obtain i where "str_index (jd_text_lower p) marker = Inr i"
      using str_index_total by blast
    then show ?thesis using True Cons by (simp add: Let_def)
  next
    case False
    then show ?thesis using Cons by (simp add: Let_def)
  qed
qed

lemma value_sections_total: "\<exists>v. value_sections p ms acc = Inr v"
proof (induction ms arbitrary: acc)
  case Nil
  then show ?case by simp
next
  case (Cons marker ms)
  show ?case
  proof (cases "contains (jd_text_lower p) marker")
    case True
    then obtain i where "str_index (jd_text_lower p) marker = Inr i"
      using str_index_total by blast
    then show ?thesis using True Cons by (simp add: Let_def)
  next
    case False
    then show ?thesis using Cons by (simp add: Let_def)
  qed
qed

lemma captures_bullet_patterns: "r \<in> set bullet_patterns \<Longrightarrow> captures r"
  by (auto simp: bullet_patterns_def line_rest_def)

lemma extract_bullets_total: "\<exists>v. extract_bullets t = Inr v"
proof -
  have "\<exists>ys. map_err (group1_strip t) (re_finditer MULTILINE r t) = Inr ys"
    if "r \<in> set bullet_patterns" for r
    using re_finditer_captures [OF captures_bullet_patterns [OF that]]
    by (intro map_err_total) (auto simp: group1_strip_total)
  then obtain found where
    "map_err (\<lambda>pattern. map_err (group1_strip t) (re_finditer MULTILINE pattern t)) bullet_patterns
       = Inr found"
    using map_err_total [of bullet_patterns
      "\<lambda>pattern. map_err (group1_strip t) (re_finditer MULTILINE pattern t)"] by blast
  then show ?thesis by (simp add: extract_bullets_def)
qed

lemma extract_required_vs_preferred_total: "\<exists>v. extract_required_vs_preferred p = Inr v"
proof -
  obtain rs ps where "marker_sections p REQUIRED_MARKERS [] = Inr rs"
    "marker_sections p PREFERRED_MARKERS [] = Inr ps"
    using marker_sections_total by blast
  moreover obtain rb pb where "extract_bullets rs = Inr rb" "extract_bullets ps = Inr pb"
    using extract_bullets_total by blast
  ultimately show ?thesis by (simp add: extract_required_vs_preferred_def)
qed

lemma extract_company_values_total: "\<exists>v. extract_company_values p = Inr v"
proof -
  obtain vs where "value_sections p value_markers [] = Inr vs"
    using value_sections_total by blast
  then show ?thesis by (simp add: extract_company_values_def)
qed

lemma collect_bullets_total: "\<exists>v. collect_bullets ls = Inr v"
proof (induction ls)
  case Nil
  then show ?case by simp
next
  case (Cons l ls)
  then obtain bs where ih: "collect_bullets ls = Inr bs" by blast
  show ?case
  proof (cases "re_match no_flags bullet_line (strip l)")
    case None
    then show ?thesis using ih by simp
  next
    case (Some m)
    have "captures bullet_line" by (simp add: bullet_line_def)
    then have "m_group1 m \<noteq> None" using re_match_captures Some by blast
    then show ?thesis using Some ih by (simp add: group1_strip_total)
  qed
qed

lemma captures_header_patterns: "r \<in> set header_patterns \<Longrightarrow> captures r"
  by (auto simp: header_patterns_def)

lemma header_step_total:
  assumes "r \<in> set header_patterns"
  shows "\<exists>v. header_step ls i r st = Inr v"
proof (cases "re_match no_flags r (strip (ls ! i))")
  case None
  then show ?thesis by (simp add: header_step_def Let_def)
next
  case (Some m)
  have g: "m_group1 m \<noteq> None"
    using re_match_captures [OF captures_header_patterns [OF assms] Some] .
  obtain bs where "collect_bullets (take (min (i + 20) (length ls) - (i + 1)) (drop (i + 1) ls)) = Inr bs"
    using collect_bullets_total by blast
  then show ?thesis
    using Some g by (simp add: header_step_def Let_def group1_strip_total)
qed

lemma analyze_structure_total: "\<exists>v. analyze_structure p = Inr v"
  unfolding analyze_structure_def Let_def
  by (intro fold_err_total header_step_total)

lemma extract_all_total: "\<exists>a. extract_all p = Inr a"
proof -
  obtain rp where "extract_required_vs_preferred p = Inr rp"
    using extract_required_vs_preferred_total by blast
  moreover obtain ti where "extract_job_title p = Inr ti" using extract_job_title_total by blast
  moreover obtain vs where "extract_company_values p = Inr vs"
    using extract_company_values_total by blast
  moreover obtain st where "analyze_structure p = Inr st" using analyze_structure_total by blast
  ultimately show ?thesis by (simp add: extract_all_def)
qed

section \<open>The claims about the job description parser\<close>

lemma marker_sections_none:
  "(\<And>m. m \<in> set ms \<Longrightarrow> \<not> contains (jd_text_lower p) m) \<Longrightarrow> marker_sections p ms acc = Inr acc"
  by (induction ms arbitrary: acc) (simp_all add: Let_def)

lemma value_sections_none:
  "(\<And>m. m \<in> set ms \<Longrightarrow> \<not> contains (jd_text_lower p) m) \<Longrightarrow> value_sections p ms acc = Inr acc"
  by (induction ms arbitrary: acc) (simp_all add: Let_def)

lemma extract_bullets_empty: "extract_bullets [] = Inr []"
  by code_simp

lemma py_set_Nil: "py_set [] = []"
  by (simp add: py_set_def)

lemma extract_all_fields:
  assumes "extract_all p = Inr a"
  shows "\<exists>rp. extract_required_vs_preferred p = Inr rp \<and> required_skills a = required rp \<and>
           preferred_skills a = preferred rp"
    and "extract_company_values p = Inr (company_values a)"
proof -
  obtain rp where rp: "extract_required_vs_preferred p = Inr rp"
    using extract_required_vs_preferred_total by blast
  obtain ti where ti: "extract_job_title p = Inr ti" using extract_job_title_total by blast
  obtain vs where vs: "extract_company_values p = Inr vs"
    using extract_company_values_total by blast
  obtain st where st: "analyze_structure p = Inr st" using analyze_structure_total by blast
  from assms rp ti vs st
  show "\<exists>rp. extract_required_vs_preferred p = Inr rp \<and> required_skills a = required rp \<and>
           preferred_skills a = preferred rp"
    by (auto simp: extract_all_def)
  from assms rp ti vs st show "extract_company_values p = Inr (company_values a)"
    by (auto simp: extract_all_def)
qed

lemma required_none:
  assumes "extract_required_vs_preferred p = Inr rp"
    and "\<And>m. m \<in> set REQUIRED_MARKERS \<Longrightarrow> \<not> contains (jd_text_lower p) m"
  shows "required rp = []"
proof -
  obtain ps where ps: "marker_sections p PREFERRED_MARKERS [] = Inr ps"
    using marker_sections_total by blast
  obtain pb where pb: "extract_bullets ps = Inr pb" using extract_bullets_total by blast
  show ?thesis
    using assms(1) marker_sections_none [of REQUIRED_MARKERS p "[]", OF assms(2)] ps pb
    by (auto simp: extract_required_vs_preferred_def extract_bullets_empty)
qed

lemma preferred_none:
  assumes "extract_required_vs_preferred p = Inr rp"
    and "\<And>m. m \<in> set PREFERRED_MARKERS \<Longrightarrow> \<not> contains (jd_text_lower p) m"
  shows "preferred rp = []"
proof -
  obtain rs where rs: "marker_sections p REQUIRED_MARKERS [] = Inr rs"
    using marker_sections_total by blast
  obtain rb where rb: "extract_bullets rs = Inr rb" using extract_bullets_total by blast
  show ?thesis
    using assms(1) marker_sections_none [of PREFERRED_MARKERS p "[]", OF assms(2)] rs rb
    by (auto simp: extract_required_vs_preferred_def extract_bullets_empty)
qed

text \<open>
  Claim C3.  For every parser state \<open>extract_all\<close> returns an analysis and no error: the
  guarded \<open>index\<close> calls find their marker and every \<open>group(1)\<close> it reads took part in the
  match.  A sub-extraction that finds nothing leaves its field empty: without a required
  marker \<open>required_skills\<close> is empty, without a preferred marker \<open>preferred_skills\<close> is empty,
  without a value marker \<open>company_values\<close> is empty, and on the empty text every list is
  empty and the title is the sentinel.
\<close>

theorem extract_all_never_raises:
  "\<exists>a. extract_all p = Inr a \<and>
     ((\<forall>m \<in> set REQUIRED_MARKERS. \<not> contains (jd_text_lower p) m) \<longrightarrow> required_skills a = []) \<and>
     ((\<forall>m \<in> set PREFERRED_MARKERS. \<not> contains (jd_text_lower p) m) \<longrightarrow> preferred_skills a = []) \<and>
     ((\<forall>m \<in> set value_markers. \<not> contains (jd_text_lower p) m) \<longrightarrow> company_values a = []) \<and>
     (jd_text p = [] \<and> jd_text_lower p = [] \<and> (nlp_doc p = None \<or> nlp_doc p = Some []) \<longrightarrow>
        a = empty_analysis)"
proof -
  obtain a where a: "extract_all p = Inr a" using extract_all_total by blast
  obtain rp where rp: "extract_required_vs_preferred p = Inr rp" "required_skills a = required rp"
    "preferred_skills a = preferred rp"
    using extract_all_fields(1) [OF a] by blast
  have r: "required_skills a = []" if "\<forall>m \<in> set REQUIRED_MARKERS. \<not> contains (jd_text_lower p) m"
    using required_none [OF rp(1)] that rp(2) by simp
  have q: "preferred_skills a = []" if "\<forall>m \<in> set PREFERRED_MARKERS. \<not> contains (jd_text_lower p) m"
    using preferred_none [OF rp(1)] that rp(3) by simp
  have v: "company_values a = []" if "\<forall>m \<in> set value_markers. \<not> contains (jd_text_lower p) m"
  proof -
    have "value_sections p value_markers [] = Inr []"
      using that by (intro value_sections_none) simp
    then show ?thesis
      using extract_all_fields(2) [OF a] by (simp add: extract_company_values_def py_set_Nil)
  qed
  have e: "a = empty_analysis"
    if "jd_text p = [] \<and> jd_text_lower p = [] \<and> (nlp_doc p = None \<or> nlp_doc p = Some [])"
  proof -
    have n: "extract_all \<lparr> jd_text = [], jd_text_lower = [], nlp_doc = None \<rparr> = Inr empty_analysis"
      by code_simp
    have s: "extract_all \<lparr> jd_text = [], jd_text_lower = [], nlp_doc = Some [] \<rparr> = Inr empty_analysis"
      by code_simp
    have "p = \<lparr> jd_text = [], jd_text_lower = [], nlp_doc = None \<rparr> \<or>
          p = \<lparr> jd_text = [], jd_text_lower = [], nlp_doc = Some [] \<rparr>"
      using that by (cases p) auto
    then show ?thesis using n s a by auto
  qed
  show ?thesis using a r q v e by blast
qed

theorem extract_all_never_raises_witness:
  "extract_all (JobDescriptionParser [] None) = Inr empty_analysis"
proof -
  let ?p = "JobDescriptionParser [] None"
  have h: "jd_text ?p = [] \<and> jd_text_lower ?p = [] \<and> (nlp_doc ?p = None \<or> nlp_doc ?p = Some [])"
    by (simp add: JobDescriptionParser_def lower_def)
  obtain a where "extract_all ?p = Inr a" and
    "jd_text ?p = [] \<and> jd_text_lower ?p = [] \<and> (nlp_doc ?p = None \<or> nlp_doc ?p = Some []) \<longrightarrow>
        a = empty_analysis"
    using extract_all_never_raises [of ?p] by blast
  then show ?thesis using h by simp
qed







end
